theory Spec2Isabelle
  imports Main "HOL-Library.Sublist"
begin

section \<open>Strings\<close>

text \<open>
  A Python \<^verbatim>\<open>str\<close> is a sequence of Unicode code points. A code point is modelled
  by its number (\<^verbatim>\<open>ord\<close>), a string by the list of its code points. The literals of
  \<^verbatim>\<open>compose.py\<close> that the model needs are ASCII except for a few accented letters of
  the Spanish messages, which are written by number.
\<close>

type_synonym pystr = "nat list"

definition ascii :: "string \<Rightarrow> pystr" where
  "ascii s = map of_char s"

text \<open>
  Two functions of the Python runtime consult the Unicode character database, which
  is not part of the program: \<^verbatim>\<open>\w\<close> in a \<^verbatim>\<open>str\<close> pattern
  (\<^verbatim>\<open>str.isalnum\<close> or an underscore) and \<^verbatim>\<open>str.casefold\<close>. On ASCII both are
  fixed below; beyond ASCII the model takes the two tables as a parameter and never
  looks at them for a code point below 128.
\<close>

record unicode_db =
  uni_alnum :: "nat \<Rightarrow> bool"
  uni_fold :: "nat \<Rightarrow> pystr"

definition is_upper_AZ :: "nat \<Rightarrow> bool" where
  "is_upper_AZ c = (65 \<le> c \<and> c \<le> 90)"

definition is_lower_az :: "nat \<Rightarrow> bool" where
  "is_lower_az c = (97 \<le> c \<and> c \<le> 122)"

definition is_digit_09 :: "nat \<Rightarrow> bool" where
  "is_digit_09 c = (48 \<le> c \<and> c \<le> 57)"

definition is_ascii_word :: "nat \<Rightarrow> bool" where
  "is_ascii_word c = (is_upper_AZ c \<or> is_lower_az c \<or> is_digit_09 c \<or> c = 95)"

definition is_word :: "unicode_db \<Rightarrow> nat \<Rightarrow> bool" where
  "is_word db c = (if c < 128 then is_ascii_word c else uni_alnum db c)"

definition casefold_char :: "unicode_db \<Rightarrow> nat \<Rightarrow> pystr" where
  "casefold_char db c =
     (if c < 128 then (if is_upper_AZ c then [c + 32] else [c]) else uni_fold db c)"

definition casefold :: "unicode_db \<Rightarrow> pystr \<Rightarrow> pystr" where
  "casefold db s = concat (map (casefold_char db) s)"

text \<open>
  A database with nothing beyond ASCII, for evaluating the program on ASCII inputs,
  where the tables are never consulted.
\<close>

definition ascii_db :: unicode_db where
  "ascii_db = \<lparr>uni_alnum = (\<lambda>c. False), uni_fold = (\<lambda>c. [c])\<rparr>"

text \<open>
  A database that knows one character beyond ASCII: U+00E9, the letter e with an
  acute accent, which the Unicode database classes as a lowercase letter.
\<close>

definition e_acute_db :: unicode_db where
  "e_acute_db = \<lparr>uni_alnum = (\<lambda>c. c = 233), uni_fold = (\<lambda>c. [c])\<rparr>"

section \<open>The name validator\<close>

text \<open>
  \<^verbatim>\<open>re.match(r'^[A-Z][\w]*$', name) is not None\<close>. The pattern is anchored at the
  start; \<^verbatim>\<open>[A-Z]\<close> takes one code point between 65 and 90; \<^verbatim>\<open>[\w]*\<close> is greedy,
  and after it \<^verbatim>\<open>$\<close> (no \<^verbatim>\<open>MULTILINE\<close> flag) accepts the end of the string or the
  position just before a newline that ends the string. Giving back word characters
  never helps, because \<^verbatim>\<open>$\<close> cannot stand before a word character.
\<close>

definition at_dollar :: "pystr \<Rightarrow> bool" where
  "at_dollar rest = (rest = [] \<or> rest = [10])"

definition is_component_name :: "unicode_db \<Rightarrow> pystr \<Rightarrow> bool" where
  "is_component_name db name =
     (case name of
        [] \<Rightarrow> False
      | c # cs \<Rightarrow> is_upper_AZ c \<and> at_dollar (dropWhile (is_word db) cs))"

section \<open>Rendering\<close>

text \<open>
  \<^verbatim>\<open>template.format(name=name)\<close>. The format string is read left to right. Literal
  text runs up to the next brace; a doubled brace stands for one brace; a single
  \<^verbatim>\<open>}\<close>, or a \<^verbatim>\<open>{\<close> that ends the string, raises \<^verbatim>\<open>ValueError\<close>. After a single
  \<^verbatim>\<open>{\<close> comes a replacement field, whose name runs to the first \<^verbatim>\<open>}\<close>, \<^verbatim>\<open>:\<close> or
  \<^verbatim>\<open>!\<close>; inside it a \<^verbatim>\<open>{\<close> raises and a \<^verbatim>\<open>[\<close> skips to the next \<^verbatim>\<open>]\<close>. The
  only argument is the keyword \<^verbatim>\<open>name\<close>, so the field \<^verbatim>\<open>{name}\<close> is replaced by the
  component name and a field whose first part (up to \<^verbatim>\<open>.\<close> or \<^verbatim>\<open>[\<close>) is anything
  else raises (\<^verbatim>\<open>KeyError\<close>, \<^verbatim>\<open>IndexError\<close> or \<^verbatim>\<open>ValueError\<close>). The exception is
  raised before anything is returned, so the result is the whole text or an error.

  A field on \<^verbatim>\<open>name\<close> with an attribute, an index, a conversion or a format
  specification (\<^verbatim>\<open>{name.x}\<close>, \<^verbatim>\<open>{name[0]}\<close>, \<^verbatim>\<open>{name!r}\<close>, \<^verbatim>\<open>{name:>8}\<close>) is outside
  this model: the result \<open>Not_Covered\<close> says so. No template of the program has one.
\<close>

datatype format_error = Format_Raises | Not_Covered

datatype field_end = Closed pystr pystr | Converted | Unclosed

text \<open>
  \<open>scan_field acc cs\<close> reads a field name: \<open>acc\<close> is what has been read (reversed),
  \<open>cs\<close> the text still to read.
\<close>

function scan_field :: "pystr \<Rightarrow> pystr \<Rightarrow> field_end" where
  "scan_field acc [] = Unclosed"
| "scan_field acc (c # cs) =
     (if c = 123 then Unclosed
      else if c = 125 then Closed (rev acc) cs
      else if c = 58 \<or> c = 33 then Converted
      else if c = 91 then
        scan_field (rev (takeWhile (\<lambda>d. d \<noteq> 93) cs) @ c # acc) (dropWhile (\<lambda>d. d \<noteq> 93) cs)
      else scan_field (c # acc) cs)"
  by pat_completeness auto
termination
  by (relation "measure (\<lambda>(acc, cs). length cs)")
    (auto simp: le_imp_less_Suc length_dropWhile_le)

definition first_part :: "pystr \<Rightarrow> pystr" where
  "first_part field = takeWhile (\<lambda>c. c \<noteq> 46 \<and> c \<noteq> 91) field"

definition NAME :: pystr where
  "NAME = ascii ''name''"

function format_str :: "pystr \<Rightarrow> pystr \<Rightarrow> format_error + pystr" where
  "format_str name [] = Inr []"
| "format_str name (c # cs) =
     (if c = 123 then
        (case cs of
           [] \<Rightarrow> Inl Format_Raises
         | d # ds \<Rightarrow>
             if d = 123 then map_sum id ((#) 123) (format_str name ds)
             else
               (case scan_field [] cs of
                  Unclosed \<Rightarrow> Inl Format_Raises
                | Converted \<Rightarrow>
                    Inl Not_Covered
                | Closed field rest \<Rightarrow>
                    if field = NAME then map_sum id ((@) name) (format_str name rest)
                    else if first_part field = NAME then Inl Not_Covered
                    else Inl Format_Raises))
      else if c = 125 then
        (case cs of
           [] \<Rightarrow> Inl Format_Raises
         | d # ds \<Rightarrow>
             if d = 125 then map_sum id ((#) 125) (format_str name ds)
             else Inl Format_Raises)
      else map_sum id ((#) c) (format_str name cs))"
  by pat_completeness auto
termination
proof -
  have shorter: "scan_field acc cs = Closed field rest \<Longrightarrow> length rest < length cs"
    for acc cs field rest
  proof (induction acc cs rule: scan_field.induct)
    case (1 acc)
    then show ?case by simp
  next
    case (2 acc c cs)
    have "length (dropWhile (\<lambda>d. d \<noteq> 93) cs) \<le> length cs"
      by (rule length_dropWhile_le)
    with 2 show ?case
      by (auto split: if_splits)
  qed
  show ?thesis
  proof (relation "measure (\<lambda>(name, t). length t)", goal_cases)
    case 1
    show ?case by simp
  next
    case (2 name c cs d ds)
    then show ?case by simp
  next
    case (3 name c cs d ds field rest)
    then show ?case
      using shorter [of "[]" cs field rest] by simp
  next
    case (4 name c cs d ds)
    then show ?case by simp
  next
    case (5 name c cs)
    then show ?case by simp
  qed
qed

section \<open>The templates\<close>

text \<open>
  The four module-level template strings, line by line; every line of the source ends
  with a newline.
\<close>

definition INDEX :: pystr where
  "INDEX = ascii (concat [
     ''import React from 'react'\<newline>'',
     ''import PropTypes from 'prop-types'\<newline>'',
     ''import Actions, {{ actionPropTypes }} from './Actions'\<newline>'',
     ''import View from './View'\<newline>'',
     ''\<newline>'',
     ''const {name} = (props) => (\<newline>'',
     ''  <View {{...props}} {{...Actions(props)}} />\<newline>'',
     '')\<newline>'',
     ''\<newline>'',
     ''const propTypes = {{ }}\<newline>'',
     ''\<newline>'',
     ''{name}.displayName = '{name}'\<newline>'',
     ''\<newline>'',
     ''{name}.propTypes = propTypes\<newline>'',
     ''\<newline>'',
     ''View.propTypes = {{\<newline>'',
     ''  ...propTypes,\<newline>'',
     ''  ...actionPropTypes,\<newline>'',
     ''}}\<newline>'',
     ''\<newline>'',
     ''export default {name}\<newline>''])"

definition SIMPLE_INDEX :: pystr where
  "SIMPLE_INDEX = ascii (concat [
     ''import React from 'react'\<newline>'',
     ''import PropTypes from 'prop-types'\<newline>'',
     ''import styles from './styles.module.css'\<newline>'',
     ''\<newline>'',
     ''const {name} = (props) => (\<newline>'',
     ''  <></>\<newline>'',
     '')\<newline>'',
     ''\<newline>'',
     ''{name}.displayName = '{name}'\<newline>'',
     ''\<newline>'',
     ''{name}.propTypes = {{ }}\<newline>'',
     ''\<newline>'',
     ''export default {name}\<newline>''])"

definition VIEW :: pystr where
  "VIEW = ascii (concat [
     ''import React from 'react'\<newline>'',
     ''import styles from './styles.module.css'\<newline>'',
     ''\<newline>'',
     ''const View = (props) => (\<newline>'',
     ''  <>\<newline>'',
     ''  </>\<newline>'',
     '')\<newline>'',
     ''\<newline>'',
     ''View.displayName = '{name}/View'\<newline>'',
     ''\<newline>'',
     ''export default View\<newline>''])"

definition ACTIONS :: pystr where
  "ACTIONS = ascii (concat [
     ''import React from 'react'\<newline>'',
     ''import PropTypes from 'prop-types'\<newline>'',
     ''\<newline>'',
     ''const Actions = (props) => {{ }}\<newline>'',
     ''\<newline>'',
     ''export const actionPropTypes = {{ }}\<newline>'',
     ''\<newline>'',
     ''export default Actions\<newline>''])"


section \<open>The template registry\<close>

text \<open>
  \<^verbatim>\<open>get_templates\<close> returns a dictionary literal. A Python dictionary keeps its keys
  in insertion order, so it is modelled by the list of its items in the order of the
  literal.
\<close>

definition get_templates :: "bool \<Rightarrow> (pystr \<times> pystr) list" where
  "get_templates simple =
     (if simple then
        [(ascii ''index.js'', SIMPLE_INDEX), (ascii ''styles.module.css'', [])]
      else
        [(ascii ''index.js'', INDEX),
         (ascii ''Actions.js'', ACTIONS),
         (ascii ''View.js'', VIEW),
         (ascii ''styles.module.css'', [])])"

section \<open>Paths and the file system\<close>

text \<open>
  A \<^verbatim>\<open>Path\<close> (POSIX flavour) is absolute or relative and has a list of components.
  The \<^verbatim>\<open>/\<close> operator of \<^verbatim>\<open>pathlib\<close> splits its right operand at the slashes and
  drops empty components and \<^verbatim>\<open>.\<close>; it keeps \<^verbatim>\<open>..\<close>. An absolute right operand
  replaces the left one. (The root \<^verbatim>\<open>//\<close>, which POSIX leaves to the implementation,
  is read as \<^verbatim>\<open>/\<close>.)
\<close>

type_synonym path = "pystr list"

record ppath =
  absolute :: bool
  parts :: path

fun split_on :: "nat \<Rightarrow> pystr \<Rightarrow> pystr \<Rightarrow> pystr list" where
  "split_on sep acc [] = [rev acc]"
| "split_on sep acc (c # cs) =
     (if c = sep then rev acc # split_on sep [] cs else split_on sep (c # acc) cs)"

definition str_parts :: "pystr \<Rightarrow> path" where
  "str_parts s = filter (\<lambda>p. p \<noteq> [] \<and> p \<noteq> [46]) (split_on 47 [] s)"

definition is_abs :: "pystr \<Rightarrow> bool" where
  "is_abs s = (case s of [] \<Rightarrow> False | c # cs \<Rightarrow> c = 47)"

definition join :: "ppath \<Rightarrow> pystr \<Rightarrow> ppath" where
  "join base s =
     (if is_abs s then \<lparr>absolute = True, parts = str_parts s\<rparr>
      else \<lparr>absolute = absolute base, parts = parts base @ str_parts s\<rparr>)"

text \<open>
  \<^verbatim>\<open>Path.parent\<close> drops the last component, whatever it is; the parent of a path
  without components is the path itself.
\<close>

definition parent :: "ppath \<Rightarrow> ppath" where
  "parent p = \<lparr>absolute = absolute p, parts = butlast (parts p)\<rparr>"

text \<open>
  The file system is the tree below the root directory: a regular file with its
  text, or a directory with its entries. A place in the tree is the list of the names
  that lead to it from the root. There are no symbolic links, and the limits of a
  real file system (permissions, quotas, name lengths, encodings) are not in the
  model: an operation fails here only for the shape of the tree.
\<close>

datatype node = File pystr | Dir "pystr \<Rightarrow> node option"

datatype os_error =
  FileExistsError | FileNotFoundError | NotADirectoryError | IsADirectoryError

fun lookup :: "node \<Rightarrow> path \<Rightarrow> os_error + node" where
  "lookup n [] = Inr n"
| "lookup (File t) (c # cs) = Inl NotADirectoryError"
| "lookup (Dir m) (c # cs) =
     (case m c of None \<Rightarrow> Inl FileNotFoundError | Some n \<Rightarrow> lookup n cs)"

text \<open>
  How the system resolves a path: from the place \<open>at\<close>, one component after the
  other. Every component is looked up in a directory, so the place reached so far
  must be one (\<^verbatim>\<open>ENOENT\<close> when nothing is there, \<^verbatim>\<open>ENOTDIR\<close> when a file is); \<^verbatim>\<open>..\<close>
  leads to the directory above, and from the root to the root. The place that the
  last component names need not exist. A relative path starts at the working
  directory \<open>cwd\<close>, an absolute one at the root.
\<close>

fun walk :: "node \<Rightarrow> path \<Rightarrow> path \<Rightarrow> os_error + path" where
  "walk r at [] = Inr at"
| "walk r at (c # cs) =
     (case lookup r at of
        Inl e \<Rightarrow> Inl e
      | Inr (File t) \<Rightarrow> Inl NotADirectoryError
      | Inr (Dir m) \<Rightarrow> walk r (if c = [46, 46] then butlast at else at @ [c]) cs)"

definition resolve :: "path \<Rightarrow> node \<Rightarrow> ppath \<Rightarrow> os_error + path" where
  "resolve cwd r p = walk r (if absolute p then [] else cwd) (parts p)"

text \<open>
  \<^verbatim>\<open>Path.exists\<close> and \<^verbatim>\<open>Path.is_dir\<close>: a failing \<^verbatim>\<open>stat\<close> (nothing there, or a file on
  the way) is False.
\<close>

definition exists :: "path \<Rightarrow> node \<Rightarrow> ppath \<Rightarrow> bool" where
  "exists cwd r p =
     (case resolve cwd r p of
        Inl e \<Rightarrow> False
      | Inr at \<Rightarrow> (case lookup r at of Inl e \<Rightarrow> False | Inr x \<Rightarrow> True))"

definition is_dir :: "path \<Rightarrow> node \<Rightarrow> ppath \<Rightarrow> bool" where
  "is_dir cwd r p =
     (case resolve cwd r p of
        Inl e \<Rightarrow> False
      | Inr at \<Rightarrow> (case lookup r at of Inr (Dir m) \<Rightarrow> True | _ \<Rightarrow> False))"

text \<open>
  \<^verbatim>\<open>os.mkdir\<close>: the path is resolved; something at the place is \<^verbatim>\<open>FileExistsError\<close>,
  otherwise an empty directory is made there.
\<close>

fun mkdir_at :: "node \<Rightarrow> path \<Rightarrow> os_error + node" where
  "mkdir_at n [] = Inl FileExistsError"
| "mkdir_at (File t) (c # cs) = Inl NotADirectoryError"
| "mkdir_at (Dir m) (c # cs) =
     (case m c of
        None \<Rightarrow>
          (if cs = [] then Inr (Dir (m(c \<mapsto> Dir Map.empty))) else Inl FileNotFoundError)
      | Some n \<Rightarrow>
          (case mkdir_at n cs of
             Inl e \<Rightarrow> Inl e
           | Inr n' \<Rightarrow> Inr (Dir (m(c \<mapsto> n')))))"

definition os_mkdir :: "path \<Rightarrow> node \<Rightarrow> ppath \<Rightarrow> os_error + node" where
  "os_mkdir cwd r p =
     (case resolve cwd r p of Inl e \<Rightarrow> Inl e | Inr at \<Rightarrow> mkdir_at r at)"

text \<open>
  \<^verbatim>\<open>Path.mkdir(mode, parents, exist_ok)\<close>, as \<^verbatim>\<open>pathlib\<close> writes it:
  \<^verbatim>\<open>
    try:
        os.mkdir(self, mode)
    except FileNotFoundError:
        if not parents or self.parent == self:
            raise
        self.parent.mkdir(parents=True, exist_ok=True)
        self.mkdir(mode, parents=False, exist_ok=exist_ok)
    except OSError:
        if not exist_ok or not self.is_dir():
            raise
  \<close>
  The result is the tree as the call leaves it, and the exception, if any: the
  directories made for the parents stay when the last step fails.
\<close>

function mkdir :: "path \<Rightarrow> node \<Rightarrow> ppath \<Rightarrow> bool \<Rightarrow> bool \<Rightarrow> node \<times> os_error option" where
  "mkdir cwd r p parents exist_ok =
     (case os_mkdir cwd r p of
        Inr r' \<Rightarrow> (r', None)
      | Inl e \<Rightarrow>
          if e = FileNotFoundError then
            (if \<not> parents \<or> parts p = [] then (r, Some e)
             else
               (case mkdir cwd r (parent p) True True of
                  (r1, Some e1) \<Rightarrow> (r1, Some e1)
                | (r1, None) \<Rightarrow> mkdir cwd r1 p False exist_ok))
          else if \<not> exist_ok \<or> \<not> is_dir cwd r p then (r, Some e)
          else (r, None))"
  by pat_completeness auto
termination
  by (relation "measure (\<lambda>(cwd, r, p, parents, exist_ok).
        2 * length (parts p) + (if parents then 1 else 0))")
    (auto simp: parent_def)

declare mkdir.simps [simp del]

text \<open>
  \<open>put_file n at text\<close>: the tree with a regular file of this text at the place
  \<open>at\<close>. The file is created in an existing directory or replaced; a directory at
  the place, a missing parent or a file on the way is an error.
\<close>

fun put_file :: "node \<Rightarrow> path \<Rightarrow> pystr \<Rightarrow> os_error + node" where
  "put_file (Dir m) [] text = Inl IsADirectoryError"
| "put_file (File t) [] text = Inr (File text)"
| "put_file (File t) (c # cs) text = Inl NotADirectoryError"
| "put_file (Dir m) (c # cs) text =
     (case m c of
        None \<Rightarrow>
          (if cs = [] then Inr (Dir (m(c \<mapsto> File text))) else Inl FileNotFoundError)
      | Some n \<Rightarrow>
          (case put_file n cs text of
             Inl e \<Rightarrow> Inl e
           | Inr n' \<Rightarrow> Inr (Dir (m(c \<mapsto> n')))))"

text \<open>
  \<^verbatim>\<open>Path.open('w')\<close>: the path is resolved and the file there created or emptied. The
  result is the place of the open file and the tree.
\<close>

definition open_w :: "path \<Rightarrow> node \<Rightarrow> ppath \<Rightarrow> os_error + path \<times> node" where
  "open_w cwd r p =
     (case resolve cwd r p of
        Inl e \<Rightarrow> Inl e
      | Inr at \<Rightarrow> (case put_file r at [] of Inl e \<Rightarrow> Inl e | Inr r' \<Rightarrow> Inr (at, r')))"

section \<open>Writing a component\<close>

text \<open>
  The exceptions of a run: an \<^verbatim>\<open>OSError\<close> of the file system, an exception of
  \<^verbatim>\<open>str.format\<close>, the \<^verbatim>\<open>ValueError\<close> of unpacking an empty sequence, and \<^verbatim>\<open>EOFError\<close>
  of \<^verbatim>\<open>input\<close>.
\<close>

datatype error =
  OS os_error
| Format format_error
| Unpack_Error
| EOF_Error

text \<open>
  \<^verbatim>\<open>render_template(file, template, **context)\<close> writes \<^verbatim>\<open>template.format(**context)\<close>
  to the open file (the file at the place \<open>file\<close>); the only key of the context is
  \<^verbatim>\<open>name\<close>. The text is formatted before \<^verbatim>\<open>file.write\<close> is called, so an exception
  of \<^verbatim>\<open>format\<close> leaves the file as \<^verbatim>\<open>open(..., 'w')\<close> made it: empty.
\<close>

definition render_template :: "node \<Rightarrow> path \<Rightarrow> pystr \<Rightarrow> pystr \<Rightarrow> error + node" where
  "render_template n file template name =
     (case format_str name template of
        Inl e \<Rightarrow> Inl (Format e)
      | Inr text \<Rightarrow>
          (case put_file n file text of Inl e \<Rightarrow> Inl (OS e) | Inr n' \<Rightarrow> Inr n'))"

text \<open>
  The loop of \<^verbatim>\<open>make_component\<close> over the items of the mapping. An exception ends the
  loop and leaves what has been written: the result is the tree at that point and
  the exception, if any.
\<close>

fun write_files :: "path \<Rightarrow> node \<Rightarrow> ppath \<Rightarrow> pystr \<Rightarrow> (pystr \<times> pystr) list \<Rightarrow> node \<times> error option" where
  "write_files cwd n root name [] = (n, None)"
| "write_files cwd n root name ((path, template) # items) =
     (case open_w cwd n (join root path) of
        Inl e \<Rightarrow> (n, Some (OS e))
      | Inr (file, opened) \<Rightarrow>
          (case render_template opened file template name of
             Inl e \<Rightarrow> (opened, Some e)
           | Inr written \<Rightarrow> write_files cwd written root name items))"

definition make_component :: "path \<Rightarrow> node \<Rightarrow> pystr \<Rightarrow> ppath \<Rightarrow> (pystr \<times> pystr) list \<Rightarrow> node \<times> error option" where
  "make_component cwd n name base file_template_mapping =
     (let root = join base name in
      if \<not> exists cwd n root then
        (case mkdir cwd n root True False of
           (left, Some e) \<Rightarrow> (left, Some (OS e))
         | (made, None) \<Rightarrow> write_files cwd made root name file_template_mapping)
      else write_files cwd n root name file_template_mapping)"

section \<open>The program\<close>

text \<open>
  What the process sees and changes: the file tree, its working directory (a place
  in the tree), the lines still to be read from
  standard input (without their newline, as \<^verbatim>\<open>input\<close> returns them), and what it has
  sent to the console, in order. \<^verbatim>\<open>print\<close> adds the newline itself; an event holds
  the text before it.
\<close>

datatype event = Out pystr | Err pystr | Prompt pystr

record world =
  fs :: node
  cwd :: path
  stdin :: "pystr list"
  console :: "event list"

definition print :: "pystr \<Rightarrow> world \<Rightarrow> world" where
  "print text w = w\<lparr>console := console w @ [Out text]\<rparr>"

definition print_err :: "pystr \<Rightarrow> world \<Rightarrow> world" where
  "print_err text w = w\<lparr>console := console w @ [Err text]\<rparr>"

text \<open>
  \<^verbatim>\<open>confirm(prompt, true_value)\<close>: \<^verbatim>\<open>input\<close> shows the prompt and returns the next
  line, or raises \<^verbatim>\<open>EOFError\<close> when there is none; the two strings are compared
  after \<^verbatim>\<open>casefold\<close>, nothing else is done to the line.
\<close>

definition confirm :: "unicode_db \<Rightarrow> pystr \<Rightarrow> pystr \<Rightarrow> world \<Rightarrow> (error + bool) \<times> world" where
  "confirm db prompt true_value w =
     (let w' = w\<lparr>console := console w @ [Prompt prompt]\<rparr> in
      case stdin w of
        [] \<Rightarrow> (Inl EOF_Error, w')
      | line # later \<Rightarrow>
          (Inr (casefold db line = casefold db true_value), w'\<lparr>stdin := later\<rparr>))"

text \<open>
  \<^verbatim>\<open>print_tree\<close>, local to \<^verbatim>\<open>main\<close>: \<^verbatim>\<open>*filenames, last_filename = filenames\<close> raises
  \<^verbatim>\<open>ValueError\<close> on an empty sequence; otherwise one line is printed for each name.
  The result is the list of the lines.
\<close>

definition BRANCH :: pystr where
  "BRANCH = ascii ''    |---- ''"

definition LAST_BRANCH :: pystr where
  "LAST_BRANCH = ascii ''    '' @ [92] @ ascii ''---- ''"

definition print_tree :: "pystr list \<Rightarrow> error + pystr list" where
  "print_tree filenames =
     (case rev filenames of
        [] \<Rightarrow> Inl Unpack_Error
      | last_filename # rest \<Rightarrow>
          Inr (map (\<lambda>filename. BRANCH @ filename) (rev rest) @ [LAST_BRANCH @ last_filename]))"

text \<open>
  The parsed command line; \<^verbatim>\<open>dir\<close> is a \<^verbatim>\<open>Path\<close>. \<^verbatim>\<open>str\<close> of a path joins the
  components with the separator; the empty relative path is \<^verbatim>\<open>.\<close>.
\<close>

record args =
  dir :: ppath
  component_name :: pystr
  skip_confirm :: bool
  simple :: bool

fun intercalate :: "pystr \<Rightarrow> pystr list \<Rightarrow> pystr" where
  "intercalate sep [] = []"
| "intercalate sep [p] = p"
| "intercalate sep (p # q # ps) = p @ sep @ intercalate sep (q # ps)"

definition path_str :: "ppath \<Rightarrow> pystr" where
  "path_str p =
     (if absolute p then 47 # intercalate [47] (parts p)
      else if parts p = [] then [46]
      else intercalate [47] (parts p))"

definition MSG_INVALID :: pystr where
  "MSG_INVALID = ascii ''Error: El nombre del componente debe comenzar ''
     @ ascii ''en una letra may'' @ [250] @ ascii ''scula y no debe contener espacios.''"

definition MSG_TREE :: pystr where
  "MSG_TREE = ascii ''Esta operaci'' @ [243] @ ascii ''n resultar'' @ [225]
     @ ascii '' en el siguiente arbol de archivos:\<newline>''"

definition MSG_OVERWRITE :: pystr where
  "MSG_OVERWRITE = ascii ''Si alguno de estos archivos ya existe, ser'' @ [225]
     @ ascii ''n sobreescritos.''"

definition MSG_CONTINUE :: pystr where
  "MSG_CONTINUE = [191] @ ascii ''Desea continuar? (s/n) ''"

definition MSG_CANCELLED :: pystr where
  "MSG_CANCELLED = ascii ''Operaci'' @ [243] @ ascii ''n cancelada.''"

definition MSG_DONE :: pystr where
  "MSG_DONE = ascii ''Operaci'' @ [243] @ ascii ''n realizada exitosamente.''"

text \<open>
  How the process ends: \<^verbatim>\<open>sys.exit(code)\<close> or the end of \<^verbatim>\<open>main\<close> (code 0), or an
  exception that nothing catches.
\<close>

datatype status = Exit nat | Uncaught error

definition write_and_finish :: "args \<Rightarrow> (pystr \<times> pystr) list \<Rightarrow> world \<Rightarrow> status \<times> world" where
  "write_and_finish a templates w =
     (case make_component (cwd w) (fs w) (component_name a) (dir a) templates of
        (n, Some e) \<Rightarrow> (Uncaught e, w\<lparr>fs := n\<rparr>)
      | (n, None) \<Rightarrow> (Exit 0, print MSG_DONE (w\<lparr>fs := n\<rparr>)))"

text \<open>
  \<^verbatim>\<open>main\<close>, from the parsed arguments on (\<^verbatim>\<open>argparse\<close> itself is not modelled): the
  name is validated, the template set chosen, the target path, the file tree and
  the warning printed, the confirmation asked unless \<^verbatim>\<open>--yes\<close> was given, the
  component written and the success message printed.
\<close>

definition main :: "unicode_db \<Rightarrow> args \<Rightarrow> world \<Rightarrow> status \<times> world" where
  "main db a w =
     (if \<not> is_component_name db (component_name a) then (Exit 1, print_err MSG_INVALID w)
      else
        let templates = get_templates (simple a);
            w1 = print (MSG_TREE @ [32] @ path_str (join (dir a) (component_name a)) @ [47]) w
        in
        (case print_tree (map fst templates) of
           Inl e \<Rightarrow> (Uncaught e, w1)
         | Inr lines \<Rightarrow>
             let w2 = print MSG_OVERWRITE (w1\<lparr>console := console w1 @ map Out lines\<rparr>) in
             if skip_confirm a then write_and_finish a templates w2
             else
               (case confirm db MSG_CONTINUE [115] w2 of
                  (Inl e, w3) \<Rightarrow> (Uncaught e, w3)
                | (Inr False, w3) \<Rightarrow> (Exit 0, print MSG_CANCELLED w3)
                | (Inr True, w3) \<Rightarrow> write_and_finish a templates w3)))"

section \<open>Reference definitions\<close>

text \<open>
  The definitions of this section follow the words of the specification, not the
  code; the theorems compare the code with them.
\<close>

text \<open>
  The naming convention as the specification words it: an uppercase ASCII letter,
  then ASCII letters, digits and underscores only.
\<close>

definition ascii_identifier :: "pystr \<Rightarrow> bool" where
  "ascii_identifier name =
     (case name of [] \<Rightarrow> False | c # cs \<Rightarrow> is_upper_AZ c \<and> list_all is_ascii_word cs)"

text \<open>
  The renderer as the specification words it: every occurrence of the token
  \<^verbatim>\<open>{name}\<close> is replaced by the name, every other character is kept.
\<close>

definition TOKEN :: pystr where
  "TOKEN = ascii ''{name}''"

fun replace_token :: "pystr \<Rightarrow> pystr \<Rightarrow> pystr" where
  "replace_token name [] = []"
| "replace_token name (c # cs) =
     (if prefix TOKEN (c # cs) then name @ replace_token name (drop 5 cs)
      else c # replace_token name cs)"

text \<open>A template whose braces all belong to \<^verbatim>\<open>{name}\<close> tokens.\<close>

fun only_name_tokens :: "pystr \<Rightarrow> bool" where
  "only_name_tokens [] = True"
| "only_name_tokens (c # cs) =
     (if prefix TOKEN (c # cs) then only_name_tokens (drop 5 cs)
      else c \<noteq> 123 \<and> c \<noteq> 125 \<and> only_name_tokens cs)"

text \<open>
  A template whose braces all belong to \<^verbatim>\<open>{name}\<close> tokens or to the doubled braces
  \<^verbatim>\<open>{{\<close> and \<^verbatim>\<open>}}\<close>, read from the left.
\<close>

fun well_braced :: "pystr \<Rightarrow> bool" where
  "well_braced [] = True"
| "well_braced (c # cs) =
     (if prefix TOKEN (c # cs) then well_braced (drop 5 cs)
      else if prefix [123, 123] (c # cs) \<or> prefix [125, 125] (c # cs) then well_braced (drop 1 cs)
      else c \<noteq> 123 \<and> c \<noteq> 125 \<and> well_braced cs)"

text \<open>
  The renderer with the doubled braces of \<^verbatim>\<open>str.format\<close>: every token \<^verbatim>\<open>{name}\<close> is
  replaced by the name, every \<^verbatim>\<open>{{\<close> by \<^verbatim>\<open>{\<close> and every \<^verbatim>\<open>}}\<close> by \<^verbatim>\<open>}\<close>, every other
  character is kept.
\<close>

fun expand :: "pystr \<Rightarrow> pystr \<Rightarrow> pystr" where
  "expand name [] = []"
| "expand name (c # cs) =
     (if prefix TOKEN (c # cs) then name @ expand name (drop 5 cs)
      else if prefix [123, 123] (c # cs) \<or> prefix [125, 125] (c # cs) then c # expand name (drop 1 cs)
      else c # expand name cs)"

text \<open>
  The confirmation as the specification words it: the line, trimmed of white space
  and compared without regard to case, is \<^verbatim>\<open>s\<close>.
\<close>

definition is_space :: "nat \<Rightarrow> bool" where
  "is_space c = (c = 32 \<or> (9 \<le> c \<and> c \<le> 13))"

definition strip :: "pystr \<Rightarrow> pystr" where
  "strip s = rev (dropWhile is_space (rev (dropWhile is_space s)))"

definition trimmed_affirmative :: "pystr \<Rightarrow> bool" where
  "trimmed_affirmative line = (strip line = [115] \<or> strip line = [83])"

section \<open>Auxiliary notions\<close>

text \<open>What is at a place of the tree: anything, a directory, a regular file.\<close>

definition exists_at :: "node \<Rightarrow> path \<Rightarrow> bool" where
  "exists_at n at = (case lookup n at of Inl e \<Rightarrow> False | Inr x \<Rightarrow> True)"

definition is_dir_at :: "node \<Rightarrow> path \<Rightarrow> bool" where
  "is_dir_at n at = (case lookup n at of Inr (Dir m) \<Rightarrow> True | _ \<Rightarrow> False)"

definition is_file_at :: "node \<Rightarrow> path \<Rightarrow> bool" where
  "is_file_at n at = (case lookup n at of Inr (File t) \<Rightarrow> True | _ \<Rightarrow> False)"

text \<open>Two trees with the same directories.\<close>

definition same_dirs :: "node \<Rightarrow> node \<Rightarrow> bool" where
  "same_dirs r r' = (\<forall>at. is_dir_at r at = is_dir_at r' at)"

text \<open>The tree with the subtree at a place replaced.\<close>

fun graft :: "node \<Rightarrow> path \<Rightarrow> node \<Rightarrow> node" where
  "graft n [] x = x"
| "graft (File t) (c # cs) x = File t"
| "graft (Dir m) (c # cs) x =
     (case m c of None \<Rightarrow> Dir m | Some k \<Rightarrow> Dir (m(c \<mapsto> graft k cs x)))"

text \<open>
  The entries of a directory after every item of a mapping has been written into it
  as a file with the rendered text.
\<close>

fun filed :: "pystr \<Rightarrow> (pystr \<Rightarrow> node option) \<Rightarrow> (pystr \<times> pystr) list \<Rightarrow> (pystr \<Rightarrow> node option)" where
  "filed name d [] = d"
| "filed name d ((k, t) # items) =
     filed name (d(k \<mapsto> File (projr (format_str name t)))) items"

text \<open>A sequence of file writes, stopping at the first error.\<close>

fun puts :: "node \<Rightarrow> (path \<times> pystr) list \<Rightarrow> os_error + node" where
  "puts n [] = Inr n"
| "puts n ((p, t) # ops) =
     (case put_file n p t of Inl e \<Rightarrow> Inl e | Inr n' \<Rightarrow> puts n' ops)"

section \<open>Scenarios\<close>

text \<open>
  The command line \<^verbatim>\<open>compose Button\<close> with or without \<^verbatim>\<open>--yes\<close> and \<^verbatim>\<open>--simple\<close>; a
  process whose file tree is one empty directory, its working directory, with the
  given lines on its standard input; and the path \<^verbatim>\<open>Button/..\<close>.
\<close>

definition HERE :: ppath where
  "HERE = \<lparr>absolute = False, parts = []\<rparr>"

definition button_args :: "bool \<Rightarrow> bool \<Rightarrow> args" where
  "button_args skip mode =
     \<lparr>dir = HERE, component_name = ascii ''Button'', skip_confirm = skip, simple = mode\<rparr>"

definition empty_world :: "pystr list \<Rightarrow> world" where
  "empty_world input = \<lparr>fs = Dir Map.empty, cwd = [], stdin = input, console = []\<rparr>"

definition BUTTON_UP :: ppath where
  "BUTTON_UP = \<lparr>absolute = False, parts = [ascii ''Button'', ascii ''..'']\<rparr>"

section \<open>The name validator: properties\<close>

lemma is_word_ascii: "is_ascii_word c \<Longrightarrow> is_word db c"
  by (auto simp: is_word_def is_ascii_word_def is_upper_AZ_def is_lower_az_def is_digit_09_def)

lemma not_word_newline: "\<not> is_word db 10" and not_word_space: "\<not> is_word db 32"
  by (simp_all add: is_word_def is_ascii_word_def is_upper_AZ_def is_lower_az_def is_digit_09_def)

lemma dropWhile_keeps: "x \<in> set xs \<Longrightarrow> \<not> P x \<Longrightarrow> x \<in> set (dropWhile P xs)"
  by (induction xs) auto

lemma dropWhile_last: "dropWhile P xs = [y] \<Longrightarrow> xs \<noteq> [] \<and> last xs = y"
proof -
  assume h: "dropWhile P xs = [y]"
  have "xs = takeWhile P xs @ dropWhile P xs" by simp
  with h have "xs = takeWhile P xs @ [y]" by simp
  then show ?thesis by (metis snoc_eq_iff_butlast)
qed

lemma at_dollar_no_newline:
  assumes "cs = [] \<or> last cs \<noteq> 10"
  shows "at_dollar (dropWhile (is_word db) cs) \<longleftrightarrow> list_all (is_word db) cs"
proof -
  have "dropWhile (is_word db) cs \<noteq> [10]"
    using assms dropWhile_last [of "is_word db" cs 10] by auto
  then show ?thesis
    by (auto simp: at_dollar_def dropWhile_eq_Nil_conv list_all_iff)
qed

text \<open>
  The definition agrees with the reading of the pattern as a regular expression:
  one character of \<^verbatim>\<open>[A-Z]\<close>, any number of word characters, and then a position
  where \<^verbatim>\<open>$\<close> holds.
\<close>

lemma is_component_name_regex:
  "is_component_name db name \<longleftrightarrow>
     (\<exists>c ws tail. name = c # ws @ tail \<and> is_upper_AZ c \<and> list_all (is_word db) ws
        \<and> at_dollar tail)"
proof
  assume v: "is_component_name db name"
  then obtain c cs where n: "name = c # cs" and u: "is_upper_AZ c"
    and d: "at_dollar (dropWhile (is_word db) cs)"
    by (auto simp: is_component_name_def split: list.splits)
  have "cs = takeWhile (is_word db) cs @ dropWhile (is_word db) cs" by simp
  moreover have "list_all (is_word db) (takeWhile (is_word db) cs)"
    by (auto simp: list_all_iff dest: set_takeWhileD)
  ultimately show "\<exists>c ws tail. name = c # ws @ tail \<and> is_upper_AZ c
      \<and> list_all (is_word db) ws \<and> at_dollar tail"
    using n u d by blast
next
  assume "\<exists>c ws tail. name = c # ws @ tail \<and> is_upper_AZ c \<and> list_all (is_word db) ws
      \<and> at_dollar tail"
  then obtain c ws tail where n: "name = c # ws @ tail" and u: "is_upper_AZ c"
    and w: "list_all (is_word db) ws" and t: "at_dollar tail"
    by blast
  from w have "dropWhile (is_word db) (ws @ tail) = dropWhile (is_word db) tail"
    by (simp add: list_all_iff)
  moreover from t have "dropWhile (is_word db) tail = tail"
    by (auto simp: at_dollar_def not_word_newline)
  ultimately show "is_component_name db name"
    using n u t by (simp add: is_component_name_def)
qed

text \<open>
  Claim C1, as the code has it. For a name that does not end in a newline,
  \<open>is_component_name\<close> holds exactly when the first character is an uppercase ASCII
  letter and every later character is a word character of \<^verbatim>\<open>\w\<close> (an ASCII letter,
  digit or underscore, or an alphanumeric character beyond ASCII). Every name of the
  ASCII shape \<^verbatim>\<open>[A-Z][A-Za-z0-9_]*\<close> is accepted, and every name that is empty,
  contains a space or does not start with an uppercase ASCII letter is rejected.
\<close>

theorem is_component_name_shape:
  "(name = [] \<or> last name \<noteq> 10 \<longrightarrow>
      is_component_name db name =
        (name \<noteq> [] \<and> is_upper_AZ (hd name) \<and> list_all (is_word db) (tl name)))
   \<and> (ascii_identifier name \<longrightarrow> is_component_name db name)
   \<and> (name = [] \<or> 32 \<in> set name \<or> \<not> is_upper_AZ (hd name) \<longrightarrow> \<not> is_component_name db name)"
proof (intro conjI impI)
  assume h: "name = [] \<or> last name \<noteq> 10"
  show "is_component_name db name =
        (name \<noteq> [] \<and> is_upper_AZ (hd name) \<and> list_all (is_word db) (tl name))"
  proof (cases name)
    case Nil
    then show ?thesis by (simp add: is_component_name_def)
  next
    case (Cons c cs)
    with h have "cs = [] \<or> last cs \<noteq> 10" by (auto split: if_splits)
    then show ?thesis
      using Cons by (simp add: is_component_name_def at_dollar_no_newline)
  qed
next
  assume "ascii_identifier name"
  then obtain c cs where n: "name = c # cs" and u: "is_upper_AZ c" and a: "list_all is_ascii_word cs"
    by (auto simp: ascii_identifier_def split: list.splits)
  from a have "list_all (is_word db) cs"
    by (auto simp: list_all_iff is_word_ascii)
  then have "dropWhile (is_word db) cs = []"
    by (simp add: dropWhile_eq_Nil_conv list_all_iff)
  with n u show "is_component_name db name"
    by (simp add: is_component_name_def at_dollar_def)
next
  assume h: "name = [] \<or> 32 \<in> set name \<or> \<not> is_upper_AZ (hd name)"
  show "\<not> is_component_name db name"
  proof (cases name)
    case Nil
    then show ?thesis by (simp add: is_component_name_def)
  next
    case (Cons c cs)
    show ?thesis
    proof (cases "is_upper_AZ c")
      case False
      with Cons show ?thesis by (simp add: is_component_name_def)
    next
      case True
      with h Cons have "32 \<in> set cs" by (auto simp: is_upper_AZ_def)
      then have "32 \<in> set (dropWhile (is_word db) cs)"
        by (rule dropWhile_keeps) (rule not_word_space)
      then have "\<not> at_dollar (dropWhile (is_word db) cs)"
        by (auto simp: at_dollar_def simp del: dropWhile_eq_Nil_conv)
      with Cons show ?thesis by (simp add: is_component_name_def)
    qed
  qed
qed

theorem is_component_name_shape_witness:
  "is_component_name ascii_db (ascii ''Button'')
   \<and> is_component_name ascii_db (ascii ''Big_Button2'')
   \<and> \<not> is_component_name ascii_db (ascii ''My Button'')"
proof -
  have a: "ascii ''Button'' = [] \<or> last (ascii ''Button'') \<noteq> 10"
    by (simp add: ascii_def)
  have b: "ascii ''Button'' \<noteq> [] \<and> is_upper_AZ (hd (ascii ''Button''))
      \<and> list_all (is_word ascii_db) (tl (ascii ''Button''))"
    by (simp add: ascii_def is_upper_AZ_def is_word_def is_ascii_word_def is_lower_az_def is_digit_09_def)
  have c: "ascii_identifier (ascii ''Big_Button2'')"
    by (simp add: ascii_def ascii_identifier_def is_upper_AZ_def is_ascii_word_def is_lower_az_def is_digit_09_def)
  have d: "ascii ''My Button'' = [] \<or> 32 \<in> set (ascii ''My Button'') \<or> \<not> is_upper_AZ (hd (ascii ''My Button''))"
    by (simp add: ascii_def)
  show ?thesis
    using is_component_name_shape [of "ascii ''Button''" ascii_db] a b
      is_component_name_shape [of "ascii ''Big_Button2''" ascii_db] c
      is_component_name_shape [of "ascii ''My Button''" ascii_db] d
    by blast
qed

text \<open>
  The specification's ASCII-only reading fails twice: \<^verbatim>\<open>$\<close> also matches before a
  final newline, so \<^verbatim>\<open>"A\n"\<close> is accepted; and \<^verbatim>\<open>\w\<close> takes letters beyond ASCII, so
  \<^verbatim>\<open>A\<close> followed by U+00E9 is accepted.
\<close>

theorem is_component_name_newline_counterexample:
  "is_component_name ascii_db (ascii ''A\<newline>'') \<and> \<not> ascii_identifier (ascii ''A\<newline>'')
   \<and> is_component_name e_acute_db [65, 233] \<and> \<not> ascii_identifier [65, 233]"
  by (simp add: is_component_name_def ascii_identifier_def ascii_def is_upper_AZ_def
      is_word_def is_ascii_word_def is_lower_az_def is_digit_09_def at_dollar_def
      e_acute_db_def ascii_db_def)

text \<open>
  Neither acceptance depends on the tables: a final newline is accepted after any
  accepted name, and so is any alphanumeric character beyond ASCII.
\<close>

lemma is_component_name_final_newline:
  "is_component_name db name \<Longrightarrow> last name \<noteq> 10 \<Longrightarrow> is_component_name db (name @ [10])"
proof -
  assume v: "is_component_name db name" and l: "last name \<noteq> 10"
  from v obtain c cs where n: "name = c # cs" and u: "is_upper_AZ c"
    and d: "at_dollar (dropWhile (is_word db) cs)"
    by (auto simp: is_component_name_def split: list.splits)
  from l n have "cs = [] \<or> last cs \<noteq> 10" by (auto split: if_splits)
  with d have "list_all (is_word db) cs" by (simp add: at_dollar_no_newline)
  then have "dropWhile (is_word db) (cs @ [10]) = [10]"
    by (simp add: list_all_iff dropWhile_append not_word_newline)
  with n u show ?thesis by (simp add: is_component_name_def at_dollar_def)
qed

lemma is_component_name_beyond_ascii:
  "128 \<le> c \<Longrightarrow> uni_alnum db c \<Longrightarrow> is_component_name db [65, c]"
  by (simp add: is_component_name_def is_upper_AZ_def is_word_def at_dollar_def)

section \<open>The template registry: properties\<close>

text \<open>
  Claim C4. \<open>get_templates False\<close> has exactly the keys \<^verbatim>\<open>index.js\<close>, \<^verbatim>\<open>Actions.js\<close>,
  \<^verbatim>\<open>View.js\<close>, \<^verbatim>\<open>styles.module.css\<close> in this order, \<open>get_templates True\<close> exactly
  \<^verbatim>\<open>index.js\<close>, \<^verbatim>\<open>styles.module.css\<close> in this order; the result is a function of the
  flag alone.
\<close>

theorem get_templates_keys:
  "map fst (get_templates False) =
     [ascii ''index.js'', ascii ''Actions.js'', ascii ''View.js'', ascii ''styles.module.css'']
   \<and> map fst (get_templates True) = [ascii ''index.js'', ascii ''styles.module.css'']
   \<and> distinct (map fst (get_templates False))
   \<and> distinct (map fst (get_templates True))"
  by (simp add: get_templates_def ascii_def)

section \<open>The file tree listing: properties\<close>

text \<open>
  Claim C8. For a non-empty list of file names, \<open>print_tree\<close> prints them in their
  order, each but the last after \<^verbatim>\<open>"    |---- "\<close> and the last after
  \<^verbatim>\<open>"    \---- "\<close>.
\<close>

theorem print_tree_prefixes:
  "filenames \<noteq> [] \<Longrightarrow>
     print_tree filenames =
       Inr (map (\<lambda>f. [32, 32, 32, 32, 124, 45, 45, 45, 45, 32] @ f) (butlast filenames)
            @ [[32, 32, 32, 32, 92, 45, 45, 45, 45, 32] @ last filenames])"
proof -
  assume "filenames \<noteq> []"
  then obtain xs x where f: "filenames = xs @ [x]"
    by (metis rev_exhaust)
  show ?thesis
    unfolding f by (simp add: print_tree_def BRANCH_def LAST_BRANCH_def ascii_def)
qed


theorem print_tree_prefixes_witness:
  "map fst (get_templates True) \<noteq> []
   \<and> print_tree (map fst (get_templates True)) =
       Inr [ascii ''    |---- index.js'', [32, 32, 32, 32, 92] @ ascii ''---- styles.module.css'']"
  using print_tree_prefixes [of "map fst (get_templates True)"]
  by (simp add: get_templates_def ascii_def)

section \<open>Rendering: properties\<close>

lemma TOKEN_prefix:
  "prefix TOKEN (c # cs) \<longleftrightarrow> c = 123 \<and> (\<exists>rest. cs = [110, 97, 109, 101, 125] @ rest)"
  by (auto simp: TOKEN_def ascii_def prefix_def)

lemma format_str_token:
  "format_str name (123 # [110, 97, 109, 101, 125] @ rest) = map_sum id ((@) name) (format_str name rest)"
  by (simp add: NAME_def ascii_def)

lemma format_str_plain:
  "c \<noteq> 123 \<Longrightarrow> c \<noteq> 125 \<Longrightarrow> format_str name (c # cs) = map_sum id ((#) c) (format_str name cs)"
  by simp

lemma format_str_open2:
  "format_str name (123 # 123 # cs) = map_sum id ((#) 123) (format_str name cs)"
  by simp

lemma format_str_close2:
  "format_str name (125 # 125 # cs) = map_sum id ((#) 125) (format_str name cs)"
  by simp

lemma format_only_name_tokens:
  "only_name_tokens template \<Longrightarrow> format_str name template = Inr (replace_token name template)"
proof (induction template rule: only_name_tokens.induct)
  case 1
  show ?case by simp
next
  case (2 c cs)
  show ?case
  proof (cases "prefix TOKEN (c # cs)")
    case True
    then obtain rest where c: "c = 123" and cs: "cs = [110, 97, 109, 101, 125] @ rest"
      by (auto simp: TOKEN_prefix)
    from True 2 have "format_str name (drop 5 cs) = Inr (replace_token name (drop 5 cs))"
      by simp
    then have "format_str name rest = Inr (replace_token name rest)"
      by (simp add: cs)
    moreover have "replace_token name (c # cs) = name @ replace_token name rest"
      using True by (simp add: cs)
    ultimately show ?thesis
      unfolding c cs format_str_token by (simp del: format_str.simps)
  next
    case False
    with 2 have c: "c \<noteq> 123" "c \<noteq> 125" and ih: "format_str name cs = Inr (replace_token name cs)"
      by auto
    from False have "replace_token name (c # cs) = c # replace_token name cs" by simp
    with c ih show ?thesis
      by (simp add: format_str_plain del: format_str.simps replace_token.simps)
  qed
qed

text \<open>
  A well-braced template renders, for every name, to its expansion.
\<close>

lemma format_well_braced:
  "well_braced template \<Longrightarrow> format_str name template = Inr (expand name template)"
proof (induction template rule: well_braced.induct)
  case 1
  show ?case by simp
next
  case (2 c cs)
  show ?case
  proof (cases "prefix TOKEN (c # cs)")
    case True
    then obtain rest where c: "c = 123" and cs: "cs = [110, 97, 109, 101, 125] @ rest"
      by (auto simp: TOKEN_prefix)
    from True 2 have "format_str name (drop 5 cs) = Inr (expand name (drop 5 cs))"
      by simp
    then have "format_str name rest = Inr (expand name rest)"
      by (simp add: cs)
    moreover have "expand name (c # cs) = name @ expand name rest"
      using True by (simp add: cs)
    ultimately show ?thesis
      unfolding c cs format_str_token by (simp del: format_str.simps)
  next
    case False
    note noToken = this
    show ?thesis
    proof (cases "prefix [123, 123] (c # cs) \<or> prefix [125, 125] (c # cs)")
      case True
      then obtain rest where cs: "cs = c # rest" and c: "c = 123 \<or> c = 125"
        by (auto simp: prefix_def)
      from True noToken 2 have "format_str name (drop 1 cs) = Inr (expand name (drop 1 cs))"
        by simp
      then have r: "format_str name rest = Inr (expand name rest)"
        by (simp add: cs)
      have "expand name (c # cs) = c # expand name rest"
        using True noToken by (simp add: cs)
      with c r show ?thesis
        unfolding cs
        by (auto simp: format_str_open2 format_str_close2 simp del: format_str.simps expand.simps)
    next
      case False
      with noToken 2 have c: "c \<noteq> 123" "c \<noteq> 125"
        and ih: "format_str name cs = Inr (expand name cs)"
        by auto
      from False noToken have "expand name (c # cs) = c # expand name cs"
        by (simp only: expand.simps if_False)
      with c ih show ?thesis
        by (simp add: format_str_plain del: format_str.simps expand.simps)
    qed
  qed
qed


text \<open>
  A template whose braces all belong to tokens is well braced, and its expansion is
  the plain replacement of the tokens.
\<close>

lemma only_name_tokens_expand:
  "only_name_tokens template \<Longrightarrow>
     well_braced template \<and> expand name template = replace_token name template"
proof (induction template rule: only_name_tokens.induct)
  case 1
  show ?case by simp
next
  case (2 c cs)
  show ?case
  proof (cases "prefix TOKEN (c # cs)")
    case True
    with 2 show ?thesis by simp
  next
    case False
    with 2 have "c \<noteq> 123" "c \<noteq> 125"
      and "well_braced cs \<and> expand name cs = replace_token name cs"
      by auto
    with False show ?thesis by simp
  qed
qed

text \<open>
  Evaluation of \<open>format_str\<close> and \<open>well_braced\<close> on a literal template, one token at
  a time.
\<close>

lemma format_str_token_cons:
  "format_str name (123 # 110 # 97 # 109 # 101 # 125 # rest) = map_sum id ((@) name) (format_str name rest)"
  by (simp add: NAME_def ascii_def)

lemmas format_rules =
  format_str_token_cons format_str_plain format_str_open2 format_str_close2

lemma well_braced_token:
  "well_braced (123 # 110 # 97 # 109 # 101 # 125 # rest) = well_braced rest"
  by (simp add: TOKEN_def ascii_def)

lemma well_braced_open2: "well_braced (123 # 123 # rest) = well_braced rest"
  by (simp add: TOKEN_def ascii_def)

lemma well_braced_close2: "well_braced (125 # 125 # rest) = well_braced rest"
  by (simp add: TOKEN_def ascii_def)

lemma well_braced_plain: "c \<noteq> 123 \<Longrightarrow> c \<noteq> 125 \<Longrightarrow> well_braced (c # cs) = well_braced cs"
  by (simp add: TOKEN_def ascii_def)

lemmas well_braced_rules =
  well_braced_token well_braced_open2 well_braced_close2 well_braced_plain

lemma templates_well_braced: "well_braced INDEX" "well_braced ACTIONS" "well_braced VIEW" "well_braced SIMPLE_INDEX"
  by (simp_all add: INDEX_def ACTIONS_def VIEW_def SIMPLE_INDEX_def ascii_def well_braced_rules
      del: well_braced.simps(2))

text \<open>
  What each template renders to, for any name.
\<close>

lemma format_INDEX:
  "format_str name INDEX = Inr
     (ascii ''import React from 'react'\<newline>''
      @ ascii ''import PropTypes from 'prop-types'\<newline>''
      @ ascii ''import Actions, { actionPropTypes } from './Actions'\<newline>''
      @ ascii ''import View from './View'\<newline>''
      @ ascii ''\<newline>''
      @ ascii ''const ''
      @ name
      @ ascii '' = (props) => (\<newline>''
      @ ascii ''  <View {...props} {...Actions(props)} />\<newline>''
      @ ascii '')\<newline>''
      @ ascii ''\<newline>''
      @ ascii ''const propTypes = { }\<newline>''
      @ ascii ''\<newline>''
      @ name
      @ ascii ''.displayName = ''
      @ [39]
      @ name
      @ ascii '''\<newline>''
      @ ascii ''\<newline>''
      @ name
      @ ascii ''.propTypes = propTypes\<newline>''
      @ ascii ''\<newline>''
      @ ascii ''View.propTypes = {\<newline>''
      @ ascii ''  ...propTypes,\<newline>''
      @ ascii ''  ...actionPropTypes,\<newline>''
      @ ascii ''}\<newline>''
      @ ascii ''\<newline>''
      @ ascii ''export default ''
      @ name
      @ ascii ''\<newline>'')"
  by (simp add: INDEX_def ascii_def format_rules del: format_str.simps(2))

lemma format_SIMPLE_INDEX:
  "format_str name SIMPLE_INDEX = Inr
     (ascii ''import React from 'react'\<newline>''
      @ ascii ''import PropTypes from 'prop-types'\<newline>''
      @ ascii ''import styles from './styles.module.css'\<newline>''
      @ ascii ''\<newline>''
      @ ascii ''const ''
      @ name
      @ ascii '' = (props) => (\<newline>''
      @ ascii ''  <></>\<newline>''
      @ ascii '')\<newline>''
      @ ascii ''\<newline>''
      @ name
      @ ascii ''.displayName = ''
      @ [39]
      @ name
      @ ascii '''\<newline>''
      @ ascii ''\<newline>''
      @ name
      @ ascii ''.propTypes = { }\<newline>''
      @ ascii ''\<newline>''
      @ ascii ''export default ''
      @ name
      @ ascii ''\<newline>'')"
  by (simp add: SIMPLE_INDEX_def ascii_def format_rules del: format_str.simps(2))

lemma format_VIEW:
  "format_str name VIEW = Inr
     (ascii ''import React from 'react'\<newline>''
      @ ascii ''import styles from './styles.module.css'\<newline>''
      @ ascii ''\<newline>''
      @ ascii ''const View = (props) => (\<newline>''
      @ ascii ''  <>\<newline>''
      @ ascii ''  </>\<newline>''
      @ ascii '')\<newline>''
      @ ascii ''\<newline>''
      @ ascii ''View.displayName = ''
      @ [39]
      @ name
      @ ascii ''/View'\<newline>''
      @ ascii ''\<newline>''
      @ ascii ''export default View\<newline>'')"
  by (simp add: VIEW_def ascii_def format_rules del: format_str.simps(2))

lemma format_ACTIONS:
  "format_str name ACTIONS = Inr
     (ascii ''import React from 'react'\<newline>''
      @ ascii ''import PropTypes from 'prop-types'\<newline>''
      @ ascii ''\<newline>''
      @ ascii ''const Actions = (props) => { }\<newline>''
      @ ascii ''\<newline>''
      @ ascii ''export const actionPropTypes = { }\<newline>''
      @ ascii ''\<newline>''
      @ ascii ''export default Actions\<newline>'')"
  by (simp add: ACTIONS_def ascii_def format_rules del: format_str.simps(2))

lemma get_templates_well_braced:
  "(path, template) \<in> set (get_templates mode) \<Longrightarrow> well_braced template"
  using templates_well_braced by (auto simp: get_templates_def split: if_splits)

text \<open>
  Claim C2, as the code has it. For a template whose braces all belong to
  \<^verbatim>\<open>{name}\<close> tokens or to doubled braces, \<open>render_template\<close> writes the template with
  every token replaced by the name, every doubled brace by one brace and every other
  character unchanged. Where no brace is doubled this is the plain replacement of
  the tokens. Every template of the program is of this kind.
\<close>

theorem render_template_well_braced:
  "(well_braced template \<longrightarrow>
      format_str name template = Inr (expand name template)
      \<and> render_template n file template name =
          map_sum OS id (put_file n file (expand name template)))
   \<and> (only_name_tokens template \<longrightarrow>
      well_braced template \<and> expand name template = replace_token name template)
   \<and> (\<forall>(path, t) \<in> set (get_templates mode). well_braced t)"
proof (intro conjI impI)
  assume "well_braced template"
  then show f: "format_str name template = Inr (expand name template)"
    by (rule format_well_braced)
  show "render_template n file template name =
          map_sum OS id (put_file n file (expand name template))"
    by (simp add: render_template_def f split: sum.splits)
next
  assume o: "only_name_tokens template"
  then show "well_braced template"
    using only_name_tokens_expand by blast
  from o show "expand name template = replace_token name template"
    using only_name_tokens_expand by blast
next
  show "\<forall>(path, t) \<in> set (get_templates mode). well_braced t"
    using get_templates_well_braced by blast
qed

theorem render_template_well_braced_witness:
  "well_braced (ascii ''a{{ }} {name}'')
   \<and> format_str (ascii ''Foo'') (ascii ''a{{ }} {name}'') = Inr (ascii ''a{ } Foo'')
   \<and> only_name_tokens (ascii ''<{name} id=1>{name}</{name}>'')
   \<and> format_str (ascii ''Foo'') (ascii ''<{name} id=1>{name}</{name}>'')
       = Inr (ascii ''<Foo id=1>Foo</Foo>'')
   \<and> (ascii ''Actions.js'', ACTIONS) \<in> set (get_templates False)
   \<and> format_str (ascii ''Foo'') ACTIONS = Inr (expand (ascii ''Foo'') ACTIONS)"
proof -
  have w: "well_braced (ascii ''a{{ }} {name}'')"
    by (simp add: ascii_def TOKEN_def)
  have e: "expand (ascii ''Foo'') (ascii ''a{{ }} {name}'') = ascii ''a{ } Foo''"
    by (simp add: ascii_def TOKEN_def)
  have o: "only_name_tokens (ascii ''<{name} id=1>{name}</{name}>'')"
    by (simp add: ascii_def TOKEN_def)
  have r: "replace_token (ascii ''Foo'') (ascii ''<{name} id=1>{name}</{name}>'')
      = ascii ''<Foo id=1>Foo</Foo>''"
    by (simp add: ascii_def TOKEN_def)
  have m: "(ascii ''Actions.js'', ACTIONS) \<in> set (get_templates False)"
    by (simp add: get_templates_def)
  show ?thesis
    using w e o r m
      render_template_well_braced
        [of "ascii ''a{{ }} {name}''" "ascii ''Foo''" "Dir Map.empty" "[]" False]
      render_template_well_braced
        [of "ascii ''<{name} id=1>{name}</{name}>''" "ascii ''Foo''" "Dir Map.empty" "[]" False]
      render_template_well_braced [of ACTIONS "ascii ''Foo''" "Dir Map.empty" "[]" False]
    by auto
qed

text \<open>
  The claim as stated fails for a template with a doubled brace, as the templates
  of the program have: \<^verbatim>\<open>{{ }}\<close> is written as \<^verbatim>\<open>{ }\<close>, not unchanged.
\<close>

theorem render_template_escape_counterexample:
  "format_str (ascii ''Foo'') (ascii ''{{ }}'') = Inr (ascii ''{ }'')
   \<and> replace_token (ascii ''Foo'') (ascii ''{{ }}'') = ascii ''{{ }}''
   \<and> format_str (ascii ''Foo'') (ascii ''{{ }}'')
       \<noteq> Inr (replace_token (ascii ''Foo'') (ascii ''{{ }}''))"
  by (simp add: ascii_def TOKEN_def)


section \<open>The file system: properties\<close>

text \<open>
  Writing the same file again replaces the first text; writes to different files
  commute.
\<close>

lemma put_file_again:
  "put_file n p t = Inr n1 \<Longrightarrow> put_file n1 p u = put_file n p u"
proof (induction n p t arbitrary: n1 rule: put_file.induct)
  case (1 m t)
  then show ?case by simp
next
  case (2 x t)
  then show ?case by auto
next
  case (3 x c cs t)
  then show ?case by simp
next
  case (4 m c cs t)
  show ?case
  proof (cases "m c")
    case None
    with 4 show ?thesis by (auto split: if_splits)
  next
    case (Some k)
    with 4 obtain k' where k: "put_file k cs t = Inr k'" and n1: "n1 = Dir (m(c \<mapsto> k'))"
      by (auto split: sum.splits)
    from 4 Some k have "put_file k' cs u = put_file k cs u" by simp
    with Some n1 show ?thesis by (simp split: sum.splits)
  qed
qed

lemma put_file_any_text:
  "put_file n p t = Inr n1 \<Longrightarrow> \<exists>n2. put_file n p u = Inr n2"
proof (induction n p t arbitrary: n1 rule: put_file.induct)
  case (4 m c cs t)
  show ?case
  proof (cases "m c")
    case None
    with 4 show ?thesis by (auto split: if_splits)
  next
    case (Some k)
    with "4.prems" obtain k' where "put_file k cs t = Inr k'"
      by (auto split: sum.splits)
    from "4.IH" [OF Some this] Some show ?thesis by auto
  qed
qed auto

lemma put_file_reopen:
  "put_file n p t = Inr n1 \<Longrightarrow> \<exists>n2. put_file n1 p u = Inr n2"
  using put_file_again [of n p t n1 u] put_file_any_text [of n p t n1 u] by auto

lemma put_file_commute:
  "put_file n p t = Inr a \<Longrightarrow> put_file n q u = Inr b \<Longrightarrow> p \<noteq> q \<Longrightarrow>
     \<exists>r. put_file a q u = Inr r \<and> put_file b p t = Inr r"
proof (induction n p t arbitrary: q a b rule: put_file.induct)
  case (1 m t)
  then show ?case by simp
next
  case (2 x t)
  then show ?case by (cases q) auto
next
  case (3 x c cs t)
  then show ?case by simp
next
  case (4 m c cs t)
  from "4.prems" obtain d ds where q: "q = d # ds"
    by (cases q) auto
  show ?case
  proof (cases "d = c")
    case False
    from "4.prems"(1) obtain x where a: "a = Dir (m(c \<mapsto> x))"
      and ax: "\<And>m'. m' c = m c \<Longrightarrow> put_file (Dir m') (c # cs) t = Inr (Dir (m'(c \<mapsto> x)))"
      by (auto split: option.splits if_splits sum.splits)
    from "4.prems"(2) q obtain y where b: "b = Dir (m(d \<mapsto> y))"
      and by': "\<And>m'. m' d = m d \<Longrightarrow> put_file (Dir m') (d # ds) u = Inr (Dir (m'(d \<mapsto> y)))"
      by (auto split: option.splits if_splits sum.splits)
    have "put_file a q u = Inr (Dir (m(c \<mapsto> x, d \<mapsto> y)))"
      unfolding a q using False by (intro by') simp
    moreover have "put_file b (c # cs) t = Inr (Dir (m(d \<mapsto> y, c \<mapsto> x)))"
      unfolding b using False by (intro ax) simp
    moreover have "m(c \<mapsto> x, d \<mapsto> y) = m(d \<mapsto> y, c \<mapsto> x)"
      using False by (simp add: fun_upd_twist)
    ultimately show ?thesis by simp
  next
    case True
    show ?thesis
    proof (cases "m c")
      case None
      with "4.prems" q True show ?thesis by (auto split: if_splits)
    next
      case (Some k)
      with "4.prems" q True obtain x y where x: "put_file k cs t = Inr x" and a: "a = Dir (m(c \<mapsto> x))"
        and y: "put_file k ds u = Inr y" and b: "b = Dir (m(c \<mapsto> y))"
        by (auto split: sum.splits)
      from "4.prems" q True have "cs \<noteq> ds" by simp
      with "4.IH" [OF Some x y] obtain r where "put_file x ds u = Inr r" "put_file y cs t = Inr r"
        by auto
      then show ?thesis
        unfolding a b q True by simp
    qed
  qed
qed

lemma puts_append:
  "puts n (A @ B) = (case puts n A of Inl e \<Rightarrow> Inl e | Inr y \<Rightarrow> puts y B)"
  by (induction n A rule: puts.induct) (auto split: sum.splits)

lemma puts_after_put:
  "puts y G = Inr z \<Longrightarrow> put_file z p t = Inr r \<Longrightarrow> put_file y p t = Inr y1 \<Longrightarrow>
     \<exists>z1. puts y1 G = Inr z1 \<and> put_file z1 p t = Inr r"
proof (induction y G arbitrary: y1 rule: puts.induct)
  case (1 n)
  then show ?case by (simp add: put_file_again)
next
  case (2 n q u ops)
  from "2.prems"(1) obtain n' where n': "put_file n q u = Inr n'" and rest: "puts n' ops = Inr z"
    by (auto split: sum.splits)
  show ?case
  proof (cases "q = p")
    case True
    have "put_file y1 p u = put_file n p u"
      using "2.prems"(3) by (rule put_file_again)
    with n' True rest "2.prems"(2) show ?thesis by simp
  next
    case False
    then have "p \<noteq> q" by simp
    from put_file_commute [OF "2.prems"(3) n' this]
    obtain w where w1: "put_file y1 q u = Inr w" and w2: "put_file n' p t = Inr w"
      by auto
    from "2.IH" [OF n' rest "2.prems"(2) w2]
    obtain z1 where "puts w ops = Inr z1" "put_file z1 p t = Inr r" by auto
    with w1 show ?thesis by simp
  qed
qed

lemma puts_idempotent:
  "puts s W = Inr s' \<Longrightarrow> puts s' W = Inr s'"
proof (induction W arbitrary: s' rule: rev_induct)
  case Nil
  then show ?case by simp
next
  case (snoc x W)
  obtain p t where x: "x = (p, t)" by (cases x)
  from snoc.prems obtain y where y: "puts s W = Inr y" and last: "put_file y p t = Inr s'"
    by (auto simp: puts_append x split: sum.splits)
  from snoc.IH [OF y] have "puts y W = Inr y" .
  from puts_after_put [OF this last last]
  obtain z1 where "puts s' W = Inr z1" "put_file z1 p t = Inr s'" by auto
  then show ?case by (simp add: puts_append x)
qed

text \<open>
  A successful write keeps every existing path and its kind, and puts the file in
  place.
\<close>

lemma put_file_lookup:
  "put_file n q u = Inr n' \<Longrightarrow> lookup n p = Inr x \<Longrightarrow>
     \<exists>x'. lookup n' p = Inr x' \<and> (case x of File t \<Rightarrow> (\<exists>t'. x' = File t') | Dir m \<Rightarrow> (\<exists>m'. x' = Dir m'))"
proof (induction n q u arbitrary: n' p x rule: put_file.induct)
  case (1 m t)
  then show ?case by simp
next
  case (2 y t)
  then show ?case by (cases p) auto
next
  case (3 y c cs t)
  then show ?case by simp
next
  case (4 m c cs t)
  show ?case
  proof (cases p)
    case Nil
    with "4.prems" show ?thesis by (auto split: option.splits if_splits sum.splits)
  next
    case (Cons d ds)
    show ?thesis
    proof (cases "d = c")
      case False
      with "4.prems" Cons have "lookup n' p = Inr x"
        by (auto split: option.splits if_splits sum.splits)
      then show ?thesis by (cases x) auto
    next
      case True
      with "4.prems"(2) Cons obtain k where k: "m c = Some k" and l: "lookup k ds = Inr x"
        by (auto split: option.splits)
      from "4.prems"(1) k obtain k' where p: "put_file k cs t = Inr k'" and n': "n' = Dir (m(c \<mapsto> k'))"
        by (auto split: sum.splits)
      from "4.IH" [OF k p l] show ?thesis
        unfolding n' Cons True by simp
    qed
  qed
qed

lemma put_file_exists: "put_file n q u = Inr n' \<Longrightarrow> exists_at n p \<Longrightarrow> exists_at n' p"
  using put_file_lookup [of n q u n' p]
  by (auto simp: exists_at_def split: sum.splits)

lemma put_file_is_dir: "put_file n q u = Inr n' \<Longrightarrow> is_dir_at n p \<Longrightarrow> is_dir_at n' p"
  using put_file_lookup [of n q u n' p]
  by (auto simp: is_dir_at_def split: sum.splits node.splits)

lemma put_file_is_file: "put_file n q u = Inr n' \<Longrightarrow> is_file_at n p \<Longrightarrow> is_file_at n' p"
  using put_file_lookup [of n q u n' p]
  by (auto simp: is_file_at_def split: sum.splits node.splits)

lemma put_file_written: "put_file n q u = Inr n' \<Longrightarrow> lookup n' q = Inr (File u)"
proof (induction n q u arbitrary: n' rule: put_file.induct)
  case (4 m c cs t)
  then show ?case by (auto split: option.splits if_splits sum.splits)
qed auto

lemma puts_is_file: "puts n ops = Inr n' \<Longrightarrow> is_file_at n p \<Longrightarrow> is_file_at n' p"
proof (induction n ops rule: puts.induct)
  case (1 n)
  then show ?case by simp
next
  case (2 n q u ops)
  from "2.prems"(1) obtain k where k: "put_file n q u = Inr k" and r: "puts k ops = Inr n'"
    by (auto split: sum.splits)
  from k "2.prems"(2) have "is_file_at k p" by (rule put_file_is_file)
  with "2.IH" [OF k r] show ?case by simp
qed

lemma puts_written: "puts n ops = Inr n' \<Longrightarrow> (p, t) \<in> set ops \<Longrightarrow> is_file_at n' p"
proof (induction n ops rule: puts.induct)
  case (1 n)
  then show ?case by simp
next
  case (2 n q u ops)
  from "2.prems"(1) obtain k where k: "put_file n q u = Inr k" and r: "puts k ops = Inr n'"
    by (auto split: sum.splits)
  show ?case
  proof (cases "(p, t) \<in> set ops")
    case True
    with "2.IH" [OF k r] show ?thesis by simp
  next
    case False
    with "2.prems"(2) have "q = p" by simp
    with k have "is_file_at k p"
      by (simp add: is_file_at_def put_file_written)
    with r show ?thesis by (rule puts_is_file)
  qed
qed



lemma put_file_dir_back:
  "put_file n q u = Inr n' \<Longrightarrow> is_dir_at n' p \<Longrightarrow> is_dir_at n p"
proof (induction n q u arbitrary: n' p rule: put_file.induct)
  case (1 m t)
  then show ?case by simp
next
  case (2 y t)
  then show ?case by (cases p) (auto simp: is_dir_at_def)
next
  case (3 y c cs t)
  then show ?case by simp
next
  case (4 m c cs t)
  show ?case
  proof (cases p)
    case Nil
    then show ?thesis by (simp add: is_dir_at_def)
  next
    case (Cons d ds)
    show ?thesis
    proof (cases "d = c")
      case False
      with "4.prems" Cons show ?thesis
        by (auto simp: is_dir_at_def split: option.splits if_splits sum.splits)
    next
      case True
      show ?thesis
      proof (cases "m c")
        case None
        with "4.prems" Cons True show ?thesis
          by (cases ds) (auto simp: is_dir_at_def split: if_splits)
      next
        case (Some k)
        with "4.prems"(1) obtain k' where p: "put_file k cs t = Inr k'" and n': "n' = Dir (m(c \<mapsto> k'))"
          by (auto split: sum.splits)
        from "4.prems"(2) have "is_dir_at k' ds"
          unfolding n' Cons True by (simp add: is_dir_at_def)
        from "4.IH" [OF Some p this] Some show ?thesis
          unfolding Cons True by (simp add: is_dir_at_def)
      qed
    qed
  qed
qed

lemma put_file_same_dirs: "put_file n q u = Inr n' \<Longrightarrow> same_dirs n n'"
  unfolding same_dirs_def using put_file_is_dir put_file_dir_back by blast

lemma same_dirs_refl: "same_dirs r r"
  and same_dirs_sym: "same_dirs r r' \<Longrightarrow> same_dirs r' r"
  and same_dirs_trans: "same_dirs r r' \<Longrightarrow> same_dirs r' r'' \<Longrightarrow> same_dirs r r''"
  by (auto simp: same_dirs_def)

lemma puts_same_dirs: "puts n ops = Inr n' \<Longrightarrow> same_dirs n n'"
proof (induction n ops rule: puts.induct)
  case (1 n)
  then show ?case by (simp add: same_dirs_refl)
next
  case (2 n q u ops)
  from "2.prems" obtain k where k: "put_file n q u = Inr k" and r: "puts k ops = Inr n'"
    by (auto split: sum.splits)
  from put_file_same_dirs [OF k] "2.IH" [OF k r] show ?case
    by (rule same_dirs_trans)
qed

lemma walk_dirs:
  "(\<And>at. is_dir_at r at \<Longrightarrow> is_dir_at r' at) \<Longrightarrow> walk r at p = Inr x \<Longrightarrow> walk r' at p = Inr x"
proof (induction p arbitrary: at)
  case Nil
  then show ?case by simp
next
  case (Cons c cs)
  from Cons.prems(2) obtain m where m: "lookup r at = Inr (Dir m)"
    and w: "walk r (if c = [46, 46] then butlast at else at @ [c]) cs = Inr x"
    by (auto split: sum.splits node.splits)
  from m have "is_dir_at r at" by (simp add: is_dir_at_def)
  then have "is_dir_at r' at" by (rule Cons.prems(1))
  then obtain m' where "lookup r' at = Inr (Dir m')"
    by (auto simp: is_dir_at_def split: sum.splits node.splits)
  with Cons.IH [OF Cons.prems(1) w] show ?case by simp
qed

lemma resolve_same_dirs:
  "same_dirs r r' \<Longrightarrow> resolve here r p = Inr at \<Longrightarrow> resolve here r' p = Inr at"
  unfolding resolve_def same_dirs_def using walk_dirs by blast

lemma exists_same_dirs_put:
  "put_file r q u = Inr r' \<Longrightarrow> exists here r p \<Longrightarrow> exists here r' p"
proof -
  assume p: "put_file r q u = Inr r'" and e: "exists here r p"
  from e obtain at where a: "resolve here r p = Inr at" and x: "exists_at r at"
    by (auto simp: exists_def exists_at_def split: sum.splits)
  from put_file_same_dirs [OF p] a have "resolve here r' p = Inr at"
    by (rule resolve_same_dirs)
  moreover from p x have "exists_at r' at" by (rule put_file_exists)
  ultimately show ?thesis
    by (auto simp: exists_def exists_at_def split: sum.splits)
qed

section \<open>Writing a component: properties\<close>

text \<open>
  A successful run of the loop is a sequence of writes, and the same writes in any
  tree with the same directories are a run of the loop.
\<close>

lemma write_files_puts:
  "write_files here n root name items = (n', None) \<Longrightarrow>
     \<exists>ops. puts n ops = Inr n' \<and>
       (\<forall>k k'. same_dirs n k \<longrightarrow> puts k ops = Inr k' \<longrightarrow>
          write_files here k root name items = (k', None))"
proof (induction here n root name items rule: write_files.induct)
  case (1 here n root name)
  then show ?case by (intro exI [of _ "[]"]) simp
next
  case (2 here n root name path template items)
  from "2.prems" obtain fl opened rendered written where
    o: "open_w here n (join root path) = Inr (fl, opened)"
    and f: "format_str name template = Inr rendered"
    and w: "put_file opened fl rendered = Inr written"
    and r: "write_files here written root name items = (n', None)"
    by (auto simp: render_template_def split: sum.splits prod.splits)
  from o have a: "resolve here n (join root path) = Inr fl" and e: "put_file n fl [] = Inr opened"
    by (auto simp: open_w_def split: sum.splits)
  have rt: "render_template opened fl template name = Inr written"
    using f w by (simp add: render_template_def)
  from "2.IH" [OF o refl rt r] obtain ops where
    p: "puts written ops = Inr n'"
    and again: "\<And>k k'. same_dirs written k \<Longrightarrow> puts k ops = Inr k' \<Longrightarrow>
          write_files here k root name items = (k', None)"
    by blast
  have nw: "same_dirs n written"
    using put_file_same_dirs [OF e] put_file_same_dirs [OF w] by (rule same_dirs_trans)
  let ?ops = "(fl, []) # (fl, rendered) # ops"
  have "puts n ?ops = Inr n'"
    using e w p by simp
  moreover have "write_files here k root name ((path, template) # items) = (k', None)"
    if s: "same_dirs n k" and pk: "puts k ?ops = Inr k'" for k k'
  proof -
    from pk obtain k1 k2 where k1: "put_file k fl [] = Inr k1"
      and k2: "put_file k1 fl rendered = Inr k2" and k3: "puts k2 ops = Inr k'"
      by (auto split: sum.splits)
    from s a have "resolve here k (join root path) = Inr fl" by (rule resolve_same_dirs)
    with k1 have ok: "open_w here k (join root path) = Inr (fl, k1)"
      by (simp add: open_w_def)
    have rk: "render_template k1 fl template name = Inr k2"
      using f k2 by (simp add: render_template_def)
    have "same_dirs written k2"
      using nw s put_file_same_dirs [OF k1] put_file_same_dirs [OF k2]
      by (meson same_dirs_sym same_dirs_trans)
    from again [OF this k3] ok rk show ?thesis by simp
  qed
  ultimately show ?case by blast
qed

lemma write_files_idempotent:
  "write_files here n root name items = (n', None) \<Longrightarrow>
     write_files here n' root name items = (n', None)"
proof -
  assume "write_files here n root name items = (n', None)"
  then obtain ops where p: "puts n ops = Inr n'"
    and again: "\<And>k k'. same_dirs n k \<Longrightarrow> puts k ops = Inr k' \<Longrightarrow>
          write_files here k root name items = (k', None)"
    using write_files_puts by blast
  from p have "puts n' ops = Inr n'" by (rule puts_idempotent)
  with again [OF puts_same_dirs [OF p]] show ?thesis by blast
qed

lemma write_files_exists:
  "write_files here n root name items = (n', e) \<Longrightarrow> exists here n p \<Longrightarrow> exists here n' p"
proof (induction here n root name items rule: write_files.induct)
  case (1 here n root name)
  then show ?case by simp
next
  case (2 here n root name path template items)
  show ?case
  proof (cases "open_w here n (join root path)")
    case (Inl a)
    with "2.prems" show ?thesis by simp
  next
    case (Inr fo)
    obtain fl opened where fo: "fo = (fl, opened)" by (cases fo)
    from Inr fo have "put_file n fl [] = Inr opened"
      by (auto simp: open_w_def split: sum.splits)
    then have eo: "exists here opened p" using "2.prems"(2) by (rule exists_same_dirs_put)
    show ?thesis
    proof (cases "render_template opened fl template name")
      case (Inl a)
      with Inr fo "2.prems" eo show ?thesis by simp
    next
      case r: (Inr written)
      then have "exists here written p"
        using eo by (auto simp: render_template_def exists_same_dirs_put split: sum.splits)
      moreover have "write_files here written root name items = (n', e)"
        using Inr fo r "2.prems"(1) by simp
      ultimately show ?thesis
        using "2.IH" [OF Inr [unfolded fo] refl r] by simp
    qed
  qed
qed


lemma mkdir_at_is_dir: "mkdir_at n q = Inr n' \<Longrightarrow> is_dir_at n p \<Longrightarrow> is_dir_at n' p"
proof (induction n q arbitrary: n' p rule: mkdir_at.induct)
  case (1 n)
  then show ?case by simp
next
  case (2 t c cs)
  then show ?case by simp
next
  case (3 m c cs)
  show ?case
  proof (cases p)
    case Nil
    with "3.prems" show ?thesis
      by (auto simp: is_dir_at_def split: option.splits if_splits sum.splits)
  next
    case (Cons d ds)
    show ?thesis
    proof (cases "d = c")
      case False
      with "3.prems" Cons show ?thesis
        by (auto simp: is_dir_at_def split: option.splits if_splits sum.splits)
    next
      case True
      with "3.prems"(2) Cons obtain k where k: "m c = Some k" and l: "is_dir_at k ds"
        by (auto simp: is_dir_at_def split: option.splits)
      from "3.prems"(1) k obtain k' where p: "mkdir_at k cs = Inr k'" and n': "n' = Dir (m(c \<mapsto> k'))"
        by (auto split: sum.splits)
      from "3.IH" [OF k p l] show ?thesis
        unfolding n' Cons True by (simp add: is_dir_at_def)
    qed
  qed
qed

lemma mkdir_at_made: "mkdir_at n q = Inr n' \<Longrightarrow> lookup n' q = Inr (Dir Map.empty)"
proof (induction n q arbitrary: n' rule: mkdir_at.induct)
  case (3 m c cs)
  then show ?case by (auto split: option.splits if_splits sum.splits)
qed auto

lemma os_mkdir_exists: "os_mkdir here r p = Inr r' \<Longrightarrow> exists here r' p"
proof -
  assume "os_mkdir here r p = Inr r'"
  then obtain at where a: "resolve here r p = Inr at" and m: "mkdir_at r at = Inr r'"
    by (auto simp: os_mkdir_def split: sum.splits)
  have "walk r' (if absolute p then [] else here) (parts p) = Inr at"
    using a mkdir_at_is_dir [OF m] unfolding resolve_def by (rule walk_dirs [rotated])
  with mkdir_at_made [OF m] show ?thesis
    by (simp add: exists_def resolve_def)
qed

lemma mkdir_plain:
  "mkdir here r p False False = (r', None) \<Longrightarrow> os_mkdir here r p = Inr r'"
  by (subst (asm) mkdir.simps) (auto split: sum.splits if_splits)

lemma mkdir_exists:
  "mkdir here r p parents False = (r', None) \<Longrightarrow> exists here r' p"
proof -
  assume run: "mkdir here r p parents False = (r', None)"
  show ?thesis
  proof (cases "os_mkdir here r p")
    case (Inr made)
    with run have "made = r'" by (subst (asm) mkdir.simps) simp
    with Inr show ?thesis by (simp add: os_mkdir_exists)
  next
    case (Inl e)
    with run obtain r1 where "mkdir here r1 p False False = (r', None)"
      by (subst (asm) mkdir.simps) (auto split: if_splits prod.splits option.splits)
    then have "os_mkdir here r1 p = Inr r'" by (rule mkdir_plain)
    then show ?thesis by (rule os_mkdir_exists)
  qed
qed

text \<open>
  When a run of \<open>make_component\<close> succeeds, a second run from the tree it left
  succeeds and leaves the same tree.
\<close>

lemma make_component_again:
  "make_component here n name base tm = (n', None) \<Longrightarrow>
     make_component here n' name base tm = (n', None)"
proof -
  assume run: "make_component here n name base tm = (n', None)"
  let ?root = "join base name"
  obtain made where w: "write_files here made ?root name tm = (n', None)"
    and e: "exists here made ?root"
  proof (cases "exists here n ?root")
    case True
    with run have "write_files here n ?root name tm = (n', None)"
      by (simp add: make_component_def Let_def)
    with True that show ?thesis by blast
  next
    case False
    with run obtain made where m: "mkdir here n ?root True False = (made, None)"
      and w: "write_files here made ?root name tm = (n', None)"
      by (auto simp: make_component_def Let_def split: prod.splits option.splits)
    from m have "exists here made ?root" by (rule mkdir_exists)
    with w that show ?thesis by blast
  qed
  from w e have "exists here n' ?root" by (rule write_files_exists)
  moreover from w have "write_files here n' ?root name tm = (n', None)"
    by (rule write_files_idempotent)
  ultimately show ?thesis
    by (simp add: make_component_def Let_def)
qed





text \<open>
  Operations below a place of the tree are operations on the subtree there.
\<close>

lemma lookup_append:
  "lookup r (a @ b) = (case lookup r a of Inl e \<Rightarrow> Inl e | Inr n \<Rightarrow> lookup n b)"
  by (induction r a rule: lookup.induct) (auto split: option.splits)

lemma graft_here: "graft r [] = (\<lambda>x. x)"
  by (rule ext) simp

lemma put_file_below:
  "lookup r a = Inr sub \<Longrightarrow>
     put_file r (a @ b) t = map_sum id (graft r a) (put_file sub b t)"
proof (induction r a arbitrary: sub rule: lookup.induct)
  case (1 n)
  then show ?case by (cases "put_file n b t") (simp_all add: graft_here)
next
  case (2 t c cs)
  then show ?case by simp
next
  case (3 m c cs)
  then obtain k where k: "m c = Some k" and l: "lookup k cs = Inr sub"
    by (auto split: option.splits)
  from "3.IH" [OF k l] k show ?case
    by (cases "put_file sub b t") simp_all
qed

lemma mkdir_at_below:
  "lookup r a = Inr sub \<Longrightarrow> mkdir_at r (a @ b) = map_sum id (graft r a) (mkdir_at sub b)"
proof (induction r a arbitrary: sub rule: lookup.induct)
  case (1 n)
  then show ?case by (cases "mkdir_at n b") (simp_all add: graft_here)
next
  case (2 t c cs)
  then show ?case by simp
next
  case (3 m c cs)
  then obtain k where k: "m c = Some k" and l: "lookup k cs = Inr sub"
    by (auto split: option.splits)
  from "3.IH" [OF k l] k show ?case
    by (cases "mkdir_at sub b") simp_all
qed

lemma lookup_graft: "lookup r a = Inr sub \<Longrightarrow> lookup (graft r a x) a = Inr x"
  by (induction r a arbitrary: sub rule: lookup.induct) (auto split: option.splits)

lemma graft_graft: "lookup r a = Inr sub \<Longrightarrow> graft (graft r a x) a y = graft r a y"
  by (induction r a arbitrary: sub rule: lookup.induct) (auto split: option.splits)

text \<open>
  The loop of \<open>make_component\<close> in a directory \<open>b\<close> of the working directory, over
  items whose keys are plain file names, none of them a directory of \<open>b\<close>, and whose
  templates render: every item becomes a file of \<open>b\<close>.
\<close>

lemma write_files_fresh:
  assumes "lookup r here = Inr (Dir m)" and "m b = Some (Dir d)" and "b \<noteq> [46, 46]"
    and "\<forall>(k, t) \<in> set items.
           join \<lparr>absolute = False, parts = [b]\<rparr> k = \<lparr>absolute = False, parts = [b, k]\<rparr>
           \<and> k \<noteq> [46, 46] \<and> (\<forall>x. d k \<noteq> Some (Dir x))
           \<and> (\<exists>rendered. format_str name t = Inr rendered)"
  shows "write_files here r \<lparr>absolute = False, parts = [b]\<rparr> name items =
    (graft r here
       (Dir (m(b \<mapsto> Dir (filed name d items)))),
     None)"
  using assms
proof (induction items arbitrary: r m d)
  case Nil
  have "m(b \<mapsto> Dir d) = m" using Nil.prems(2) by (simp add: fun_upd_idem)
  moreover have "graft r here (Dir m) = r"
    using Nil.prems(1) by (induction r here rule: lookup.induct) (auto split: option.splits)
  ultimately show ?case by simp
next
  case (Cons item items)
  obtain k t where item: "item = (k, t)" by (cases item)
  from Cons.prems(4) item obtain rendered where
    j: "join \<lparr>absolute = False, parts = [b]\<rparr> k = \<lparr>absolute = False, parts = [b, k]\<rparr>"
    and k: "k \<noteq> [46, 46]" and nd: "\<forall>x. d k \<noteq> Some (Dir x)"
    and f: "format_str name t = Inr rendered"
    by auto
  let ?d1 = "d(k \<mapsto> File [])" and ?d2 = "d(k \<mapsto> File rendered)"
  let ?r1 = "graft r here (Dir (m(b \<mapsto> Dir ?d1)))"
  let ?r2 = "graft r here (Dir (m(b \<mapsto> Dir ?d2)))"
  have lb: "lookup r (here @ [b]) = Inr (Dir d)"
    using Cons.prems(1,2) by (simp add: lookup_append)
  have res: "resolve here r \<lparr>absolute = False, parts = [b, k]\<rparr> = Inr (here @ [b, k])"
    using Cons.prems(1,3) lb k by (simp add: resolve_def)
  have pd: "put_file (Dir d) [k] x = Inr (Dir (d(k \<mapsto> File x)))" for x
    using nd by (cases "d k") (auto split: node.splits, (case_tac a; simp)+)
  have p1: "put_file r (here @ [b, k]) [] = Inr ?r1"
    using put_file_below [OF Cons.prems(1), of "[b, k]" "[]"] Cons.prems(2) pd by simp
  have l1: "lookup ?r1 here = Inr (Dir (m(b \<mapsto> Dir ?d1)))"
    using Cons.prems(1) by (rule lookup_graft)
  have pd1: "put_file (Dir ?d1) [k] x = Inr (Dir (d(k \<mapsto> File x)))" for x
    by simp
  have p2: "put_file ?r1 (here @ [b, k]) rendered = Inr ?r2"
    using put_file_below [OF l1, of "[b, k]" rendered] pd1 graft_graft [OF Cons.prems(1)]
    by simp
  have step: "write_files here r \<lparr>absolute = False, parts = [b]\<rparr> name (item # items)
      = write_files here ?r2 \<lparr>absolute = False, parts = [b]\<rparr> name items"
    by (simp add: item j open_w_def res p1 render_template_def f p2)
  have l2: "lookup ?r2 here = Inr (Dir (m(b \<mapsto> Dir ?d2)))"
    using Cons.prems(1) by (rule lookup_graft)
  have rest: "\<forall>(k', t') \<in> set items.
           join \<lparr>absolute = False, parts = [b]\<rparr> k' = \<lparr>absolute = False, parts = [b, k']\<rparr>
           \<and> k' \<noteq> [46, 46] \<and> (\<forall>x. ?d2 k' \<noteq> Some (Dir x))
           \<and> (\<exists>rendered. format_str name t' = Inr rendered)"
    using Cons.prems(4) by (fastforce split: if_splits)
  have mb: "(m(b \<mapsto> Dir ?d2)) b = Some (Dir ?d2)" by simp
  have ih: "write_files here ?r2 \<lparr>absolute = False, parts = [b]\<rparr> name items =
    (graft ?r2 here
       (Dir ((m(b \<mapsto> Dir ?d2))(b \<mapsto> Dir (filed name ?d2 items)))),
     None)"
    using l2 mb Cons.prems(3) rest by (rule Cons.IH)
  have e1: "(m(b \<mapsto> Dir ?d2))(b \<mapsto> y) = m(b \<mapsto> y)" for y
    by simp
  have e2: "filed name d (item # items) = filed name ?d2 items"
    by (simp add: item f)
  have e3: "graft ?r2 here x = graft r here x" for x
    using Cons.prems(1) by (rule graft_graft)
  show "write_files here r \<lparr>absolute = False, parts = [b]\<rparr> name (item # items) =
    (graft r here (Dir (m(b \<mapsto> Dir (filed name d (item # items))))), None)"
    unfolding step ih e1 e2 e3 ..
qed

section \<open>The program: properties\<close>

text \<open>
  Claim C5. For a name that the validator rejects, \<open>main\<close> prints the diagnostic
  on the error stream and exits with code 1; the file tree is unchanged and nothing
  is read.
\<close>

theorem invalid_name_exits:
  "\<not> is_component_name db (component_name a) \<Longrightarrow>
     main db a w = (Exit 1, w\<lparr>console := console w @ [Err MSG_INVALID]\<rparr>)
     \<and> fs (snd (main db a w)) = fs w"
  by (simp add: main_def print_err_def)

theorem invalid_name_exits_witness:
  "\<not> is_component_name ascii_db (ascii ''button'')
   \<and> main ascii_db
        \<lparr>dir = HERE, component_name = ascii ''button'', skip_confirm = True, simple = False\<rparr>
        \<lparr>fs = Dir Map.empty, cwd = [], stdin = [], console = []\<rparr>
      = (Exit 1, \<lparr>fs = Dir Map.empty, cwd = [], stdin = [], console = [Err MSG_INVALID]\<rparr>)"
proof -
  have "\<not> is_component_name ascii_db (ascii ''button'')"
    by (simp add: is_component_name_def ascii_def is_upper_AZ_def)
  then show ?thesis
    using invalid_name_exits [of ascii_db
        "\<lparr>dir = HERE, component_name = ascii ''button'', skip_confirm = True, simple = False\<rparr>"
        "\<lparr>fs = Dir Map.empty, cwd = [], stdin = [], console = []\<rparr>"]
    by simp
qed

lemma print_tree_templates:
  "\<exists>lines. print_tree (map fst (get_templates mode)) = Inr lines"
  by (simp add: print_tree_def get_templates_def)

lemma casefold_ascii_s:
  "\<forall>c\<in>set line. c < 128 \<Longrightarrow> casefold db line = [115] \<longleftrightarrow> line = [115] \<or> line = [83]"
proof -
  assume a: "\<forall>c\<in>set line. c < 128"
  have len: "length (casefold db l) = length l" if "\<forall>c\<in>set l. c < 128" for l
    using that by (induction l) (auto simp: casefold_def casefold_char_def)
  show ?thesis
  proof
    assume h: "casefold db line = [115]"
    with len [OF a] have "length line = 1" by simp
    then obtain c where l: "line = [c]" by (cases line) auto
    with a h have "c = 115 \<or> c = 83"
      by (auto simp: casefold_def casefold_char_def is_upper_AZ_def split: if_splits)
    with l show "line = [115] \<or> line = [83]" by simp
  next
    assume "line = [115] \<or> line = [83]"
    then show "casefold db line = [115]"
      by (auto simp: casefold_def casefold_char_def is_upper_AZ_def)
  qed
qed

text \<open>
  Claim C3, as the code has it. With \<^verbatim>\<open>--yes\<close> the files are written and no line is
  read. Without it, the files are written when the line read, case-folded and not
  trimmed, is \<^verbatim>\<open>s\<close> (among ASCII lines: exactly \<^verbatim>\<open>s\<close> and \<^verbatim>\<open>S\<close>); for any other line
  the program prints the cancellation message and exits with code 0, the file tree
  unchanged.
\<close>

theorem confirmation_gate:
  assumes "is_component_name db (component_name a)"
  shows
    "(skip_confirm a \<longrightarrow>
        fs (snd (main db a w)) =
          fst (make_component (cwd w) (fs w) (component_name a) (dir a) (get_templates (simple a)))
        \<and> stdin (snd (main db a w)) = stdin w)
     \<and> (\<not> skip_confirm a \<and> stdin w = line # rest \<and> casefold db line = [115] \<longrightarrow>
        fs (snd (main db a w)) =
          fst (make_component (cwd w) (fs w) (component_name a) (dir a) (get_templates (simple a)))
        \<and> fst (main db a w) =
          (case snd (make_component (cwd w) (fs w) (component_name a) (dir a)
                  (get_templates (simple a))) of
             None \<Rightarrow> Exit 0 | Some e \<Rightarrow> Uncaught e))
     \<and> (\<not> skip_confirm a \<and> stdin w = line # rest \<and> casefold db line \<noteq> [115] \<longrightarrow>
        fst (main db a w) = Exit 0
        \<and> fs (snd (main db a w)) = fs w
        \<and> last (console (snd (main db a w))) = Out MSG_CANCELLED)
     \<and> ((\<forall>c\<in>set line. c < 128) \<longrightarrow>
        (casefold db line = [115]) = (line = [115] \<or> line = [83]))"
proof -
  obtain lines where l: "print_tree (map fst (get_templates (simple a))) = Inr lines"
    using print_tree_templates by blast
  have s: "casefold db [115] = [115]"
    by (simp add: casefold_def casefold_char_def is_upper_AZ_def)
  show ?thesis
    using assms l s casefold_ascii_s [of line db]
    by (auto simp: main_def Let_def write_and_finish_def confirm_def print_def
        split: prod.splits option.splits)
qed

lemma Button_valid: "is_component_name db (ascii ''Button'')"
  by (simp add: is_component_name_def ascii_def is_upper_AZ_def is_word_def is_ascii_word_def
      is_lower_az_def is_digit_09_def at_dollar_def)

lemma Button_join: "join HERE (ascii ''Button'') = \<lparr>absolute = False, parts = [ascii ''Button'']\<rparr>"
  by (simp add: join_def HERE_def is_abs_def str_parts_def ascii_def)

theorem confirmation_gate_witness:
  "is_component_name ascii_db (component_name (button_args False True))
   \<and> fst (main ascii_db (button_args False True) (empty_world [ascii ''n''])) = Exit 0
   \<and> fs (snd (main ascii_db (button_args False True) (empty_world [ascii ''n'']))) = Dir Map.empty
   \<and> fs (snd (main ascii_db (button_args False True) (empty_world [ascii ''S'']))) =
       fst (make_component [] (Dir Map.empty) (ascii ''Button'') HERE (get_templates True))
   \<and> fs (snd (main ascii_db (button_args True True) (empty_world [ascii ''n'']))) =
       fst (make_component [] (Dir Map.empty) (ascii ''Button'') HERE (get_templates True))
   \<and> stdin (snd (main ascii_db (button_args True True) (empty_world [ascii ''n''])))
       = [ascii ''n'']"
proof -
  have v': "is_component_name ascii_db (component_name (button_args True True))"
    by (simp add: button_args_def Button_valid)
  have v: "is_component_name ascii_db (component_name (button_args False True))"
    by (simp add: button_args_def Button_valid)
  have n: "casefold ascii_db (ascii ''n'') \<noteq> [115]"
    by (simp add: casefold_def casefold_char_def ascii_def is_upper_AZ_def)
  have s: "casefold ascii_db (ascii ''S'') = [115]"
    by (simp add: casefold_def casefold_char_def ascii_def is_upper_AZ_def)
  show ?thesis
    using v n s
      confirmation_gate [OF v, of "empty_world [ascii ''n'']" "ascii ''n''" "[]"]
      confirmation_gate [OF v, of "empty_world [ascii ''S'']" "ascii ''S''" "[]"]
      confirmation_gate [OF v', of "empty_world [ascii ''n'']" "ascii ''n''" "[]"]
    by (simp add: empty_world_def button_args_def)
qed

text \<open>
  The claim as stated fails for a line with white space around the token: the line
  \<^verbatim>\<open>"s "\<close> is \<^verbatim>\<open>s\<close> when trimmed, and the program cancels.
\<close>

theorem confirmation_untrimmed_counterexample:
  "trimmed_affirmative (ascii ''s '')
   \<and> main ascii_db (button_args False True) (empty_world [ascii ''s '']) =
       (Exit 0,
        \<lparr>fs = Dir Map.empty, cwd = [], stdin = [],
         console = [Out (MSG_TREE @ ascii '' Button/''),
                    Out (BRANCH @ ascii ''index.js''),
                    Out (LAST_BRANCH @ ascii ''styles.module.css''),
                    Out MSG_OVERWRITE,
                    Prompt MSG_CONTINUE,
                    Out MSG_CANCELLED]\<rparr>)"
proof -
  have t: "trimmed_affirmative (ascii ''s '')"
    by (simp add: trimmed_affirmative_def strip_def is_space_def ascii_def)
  have c: "casefold ascii_db (ascii ''s '') \<noteq> casefold ascii_db [115]"
    by (simp add: casefold_def casefold_char_def ascii_def is_upper_AZ_def)
  have p: "32 # path_str \<lparr>absolute = False, parts = [ascii ''Button'']\<rparr> @ [47] = ascii '' Button/''"
    by (simp add: path_str_def ascii_def)
  have l: "print_tree (map fst (get_templates True)) =
      Inr [BRANCH @ ascii ''index.js'', LAST_BRANCH @ ascii ''styles.module.css'']"
    by (simp add: print_tree_def get_templates_def)
  show ?thesis
    using t c
    by (simp add: main_def button_args_def empty_world_def Button_valid Button_join p l
        confirm_def print_def Let_def)
qed

lemma INDEX_Button_contains:
  assumes "format_str (ascii ''Button'') INDEX = Inr index"
  shows "sublist (ascii ''const Button = (props) => ('') index"
    and "sublist (ascii ''Button.displayName = 'Button'' @ [39]) index"
proof -
  from assms have "index = projr (format_str (ascii ''Button'') INDEX)"
    by simp
  then have i: "index = projr (format_str [66, 117, 116, 116, 111, 110] INDEX)"
    by (simp add: ascii_def)
  show "sublist (ascii ''const Button = (props) => ('') index"
    unfolding i format_INDEX by (simp add: ascii_def sublist_Cons_right)
  show "sublist (ascii ''Button.displayName = 'Button'' @ [39]) index"
    unfolding i format_INDEX by (simp add: ascii_def sublist_Cons_right)
qed

lemma make_component_Button:
  assumes "lookup r here = Inr (Dir m)" and "m (ascii ''Button'') = None"
    and "format_str (ascii ''Button'') INDEX = Inr index"
    and "format_str (ascii ''Button'') ACTIONS = Inr actions"
    and "format_str (ascii ''Button'') VIEW = Inr view"
  shows "make_component here r (ascii ''Button'') HERE (get_templates False) =
    (graft r here (Dir (m(ascii ''Button'' \<mapsto>
        Dir [ascii ''index.js'' \<mapsto> File index,
             ascii ''Actions.js'' \<mapsto> File actions,
             ascii ''View.js'' \<mapsto> File view,
             ascii ''styles.module.css'' \<mapsto> File []]))), None)"
proof -
  let ?B = "ascii ''Button''"
  let ?root = "\<lparr>absolute = False, parts = [?B]\<rparr>"
  let ?made = "graft r here (Dir (m(?B \<mapsto> Dir Map.empty)))"
  have b: "?B \<noteq> [46, 46]" by (simp add: ascii_def)
  have lb: "lookup r (here @ [?B]) = Inl FileNotFoundError"
    using assms(1,2) by (simp add: lookup_append)
  have res: "resolve here r ?root = Inr (here @ [?B])"
    using assms(1) b by (simp add: resolve_def)
  have ex: "\<not> exists here r ?root"
    by (simp add: exists_def res lb)
  have "mkdir_at r (here @ [?B]) = Inr ?made"
    using mkdir_at_below [OF assms(1), of "[?B]"] assms(2) by simp
  then have "os_mkdir here r ?root = Inr ?made"
    by (simp add: os_mkdir_def res)
  then have mk: "mkdir here r ?root True False = (?made, None)"
    by (subst mkdir.simps) simp
  have lm: "lookup ?made here = Inr (Dir (m(?B \<mapsto> Dir Map.empty)))"
    using assms(1) by (rule lookup_graft)
  have keys: "\<forall>(k, t) \<in> set (get_templates False).
           join ?root k = \<lparr>absolute = False, parts = [?B, k]\<rparr>
           \<and> k \<noteq> [46, 46] \<and> (\<forall>x. Map.empty k \<noteq> Some (Dir x))
           \<and> (\<exists>rendered. format_str ?B t = Inr rendered)"
    using assms(3-5)
    by (simp add: get_templates_def join_def is_abs_def str_parts_def ascii_def)
  have mb: "(m(?B \<mapsto> Dir Map.empty)) ?B = Some (Dir Map.empty)" by simp
  have "write_files here ?made ?root ?B (get_templates False) =
    (graft ?made here
       (Dir ((m(?B \<mapsto> Dir Map.empty))(?B \<mapsto> Dir (filed ?B Map.empty (get_templates False))))),
     None)"
    using lm mb b keys by (rule write_files_fresh)
  then have "write_files here ?made ?root ?B (get_templates False) =
    (graft r here (Dir (m(?B \<mapsto>
        Dir [ascii ''index.js'' \<mapsto> File index,
             ascii ''Actions.js'' \<mapsto> File actions,
             ascii ''View.js'' \<mapsto> File view,
             ascii ''styles.module.css'' \<mapsto> File []]))), None)"
    using assms(3-5) by (simp add: graft_graft [OF assms(1)] get_templates_def)
  with ex mk show ?thesis
    by (simp add: make_component_def Button_join)
qed

text \<open>
  Claim C6. \<^verbatim>\<open>compose Button --yes\<close> in a working directory without an entry
  \<^verbatim>\<open>Button\<close> exits with code 0 and leaves there a directory \<^verbatim>\<open>Button\<close> with exactly
  four files, the renderings of the four templates; the text of \<^verbatim>\<open>index.js\<close>
  contains \<^verbatim>\<open>const Button = (props) => (\<close> and \<^verbatim>\<open>Button.displayName = 'Button'\<close>.
\<close>

theorem button_scenario:
  assumes "lookup r here = Inr (Dir m)" and "m (ascii ''Button'') = None"
  shows "\<exists>index actions view.
      format_str (ascii ''Button'') INDEX = Inr index
    \<and> format_str (ascii ''Button'') ACTIONS = Inr actions
    \<and> format_str (ascii ''Button'') VIEW = Inr view
    \<and> fst (main db (button_args True False)
          \<lparr>fs = r, cwd = here, stdin = input, console = []\<rparr>) = Exit 0
    \<and> fs (snd (main db (button_args True False)
          \<lparr>fs = r, cwd = here, stdin = input, console = []\<rparr>)) =
        graft r here (Dir (m(ascii ''Button'' \<mapsto>
          Dir [ascii ''index.js'' \<mapsto> File index,
               ascii ''Actions.js'' \<mapsto> File actions,
               ascii ''View.js'' \<mapsto> File view,
               ascii ''styles.module.css'' \<mapsto> File []])))
    \<and> card {ascii ''index.js'', ascii ''Actions.js'', ascii ''View.js'', ascii ''styles.module.css''} = 4
    \<and> sublist (ascii ''const Button = (props) => ('') index
    \<and> sublist (ascii ''Button.displayName = 'Button'' @ [39]) index"
proof -
  obtain index actions view where
    i: "format_str (ascii ''Button'') INDEX = Inr index"
    and a: "format_str (ascii ''Button'') ACTIONS = Inr actions"
    and v: "format_str (ascii ''Button'') VIEW = Inr view"
    using format_INDEX format_ACTIONS format_VIEW by blast
  have l: "\<exists>lines. print_tree (map fst (get_templates False)) = Inr lines"
    by (rule print_tree_templates)
  have c: "card {ascii ''index.js'', ascii ''Actions.js'', ascii ''View.js'', ascii ''styles.module.css''} = 4"
    by (simp add: ascii_def)
  have r: "fst (main db (button_args True False)
          \<lparr>fs = r, cwd = here, stdin = input, console = []\<rparr>) = Exit 0
    \<and> fs (snd (main db (button_args True False)
          \<lparr>fs = r, cwd = here, stdin = input, console = []\<rparr>)) =
        graft r here (Dir (m(ascii ''Button'' \<mapsto>
          Dir [ascii ''index.js'' \<mapsto> File index,
               ascii ''Actions.js'' \<mapsto> File actions,
               ascii ''View.js'' \<mapsto> File view,
               ascii ''styles.module.css'' \<mapsto> File []])))"
    using l make_component_Button [of r here m index actions view, OF assms i a v]
    by (auto simp: main_def button_args_def Button_valid Let_def
        write_and_finish_def print_def)
  from i a v r c INDEX_Button_contains [OF i] show ?thesis by blast
qed

theorem button_scenario_witness:
  "lookup (Dir Map.empty) [] = Inr (Dir Map.empty)
   \<and> Map.empty (ascii ''Button'') = None
   \<and> fst (main ascii_db (button_args True False) (empty_world [])) = Exit 0
   \<and> is_file_at (fs (snd (main ascii_db (button_args True False) (empty_world []))))
        [ascii ''Button'', ascii ''index.js'']"
  using button_scenario [of "Dir Map.empty" "[]" Map.empty ascii_db "[]"]
  by (auto simp: is_file_at_def empty_world_def)

section \<open>A root that its parents create\<close>

text \<open>
  \<^verbatim>\<open>make_component\<close> calls \<^verbatim>\<open>root.mkdir(parents=True)\<close> without \<^verbatim>\<open>exist_ok\<close>. When the
  root is missing because a directory on its way is, and that directory is the
  root itself under another spelling, \<^verbatim>\<open>mkdir\<close> creates it while it makes the parents
  and then fails on the root with \<^verbatim>\<open>FileExistsError\<close>. The smallest case is
  \<^verbatim>\<open>compose Button/.. Button --yes\<close> in an empty directory: the root is
  \<^verbatim>\<open>Button/../Button\<close>, its parents are \<^verbatim>\<open>Button/..\<close> and \<^verbatim>\<open>Button\<close>.
\<close>

lemma dotdot: "ascii ''..'' = [46, 46]" by (simp add: ascii_def)
lemma Button_not_dotdot: "ascii ''Button'' \<noteq> [46, 46]" by (simp add: ascii_def)

lemma BUTTON_UP_join:
  "join BUTTON_UP (ascii ''Button'') =
     \<lparr>absolute = False, parts = [ascii ''Button'', [46, 46], ascii ''Button'']\<rparr>"
  by (simp add: join_def BUTTON_UP_def is_abs_def str_parts_def ascii_def)

lemma BUTTON_UP_missing:
  "\<not> exists [] (Dir Map.empty) (join BUTTON_UP (ascii ''Button''))"
  by (simp add: BUTTON_UP_join exists_def resolve_def Button_not_dotdot)

lemma BUTTON_UP_mkdir:
  "mkdir [] (Dir Map.empty) (join BUTTON_UP (ascii ''Button'')) True False =
     (Dir [ascii ''Button'' \<mapsto> Dir Map.empty], Some FileExistsError)"
proof -
  let ?B = "ascii ''Button''"
  let ?made = "Dir [?B \<mapsto> Dir Map.empty]"
  have m1: "mkdir [] (Dir Map.empty) \<lparr>absolute = False, parts = [?B]\<rparr> True True = (?made, None)"
    by (subst mkdir.simps) (simp add: os_mkdir_def resolve_def Button_not_dotdot)
  have m2: "mkdir [] ?made \<lparr>absolute = False, parts = [?B, [46, 46]]\<rparr> False True = (?made, None)"
    by (subst mkdir.simps) (simp add: os_mkdir_def resolve_def is_dir_def Button_not_dotdot)
  have m3: "mkdir [] (Dir Map.empty) \<lparr>absolute = False, parts = [?B, [46, 46]]\<rparr> True True = (?made, None)"
    by (subst mkdir.simps) (simp add: os_mkdir_def resolve_def parent_def m1 m2 Button_not_dotdot)
  have m4: "mkdir [] ?made \<lparr>absolute = False, parts = [?B, [46, 46], ?B]\<rparr> False False
      = (?made, Some FileExistsError)"
    by (subst mkdir.simps) (simp add: os_mkdir_def resolve_def Button_not_dotdot)
  show ?thesis
    unfolding BUTTON_UP_join
    by (subst mkdir.simps) (simp add: os_mkdir_def resolve_def parent_def m3 m4 Button_not_dotdot)
qed

lemma BUTTON_UP_first:
  "make_component [] (Dir Map.empty) (ascii ''Button'') BUTTON_UP tm =
     (Dir [ascii ''Button'' \<mapsto> Dir Map.empty], Some (OS FileExistsError))"
  using BUTTON_UP_missing by (simp add: make_component_def Let_def BUTTON_UP_mkdir)

lemma BUTTON_UP_second:
  assumes "format_str (ascii ''Button'') INDEX = Inr index"
    and "format_str (ascii ''Button'') ACTIONS = Inr actions"
    and "format_str (ascii ''Button'') VIEW = Inr view"
  shows "make_component [] (Dir [ascii ''Button'' \<mapsto> Dir Map.empty]) (ascii ''Button'') BUTTON_UP
      (get_templates False) =
    (Dir [ascii ''Button'' \<mapsto>
        Dir [ascii ''index.js'' \<mapsto> File index,
             ascii ''Actions.js'' \<mapsto> File actions,
             ascii ''View.js'' \<mapsto> File view,
             ascii ''styles.module.css'' \<mapsto> File []]], None)"
proof -
  let ?B = "ascii ''Button''"
  let ?root = "\<lparr>absolute = False, parts = [?B, [46, 46], ?B]\<rparr>"
  have j: "join ?root (ascii ''index.js'') = \<lparr>absolute = False, parts = [?B, [46, 46], ?B, ascii ''index.js'']\<rparr>"
    "join ?root (ascii ''Actions.js'') = \<lparr>absolute = False, parts = [?B, [46, 46], ?B, ascii ''Actions.js'']\<rparr>"
    "join ?root (ascii ''View.js'') = \<lparr>absolute = False, parts = [?B, [46, 46], ?B, ascii ''View.js'']\<rparr>"
    "join ?root (ascii ''styles.module.css'') = \<lparr>absolute = False, parts = [?B, [46, 46], ?B, ascii ''styles.module.css'']\<rparr>"
    by (simp_all add: join_def is_abs_def str_parts_def ascii_def)
  have k: "ascii ''index.js'' \<noteq> [46, 46]" "ascii ''Actions.js'' \<noteq> [46, 46]"
    "ascii ''View.js'' \<noteq> [46, 46]" "ascii ''styles.module.css'' \<noteq> [46, 46]"
    "ascii ''index.js'' \<noteq> ascii ''Actions.js''" "ascii ''index.js'' \<noteq> ascii ''View.js''"
    "ascii ''index.js'' \<noteq> ascii ''styles.module.css''" "ascii ''Actions.js'' \<noteq> ascii ''View.js''"
    "ascii ''Actions.js'' \<noteq> ascii ''styles.module.css''" "ascii ''View.js'' \<noteq> ascii ''styles.module.css''"
    by (simp_all add: ascii_def)
  have e: "exists [] (Dir [?B \<mapsto> Dir Map.empty]) ?root"
    by (simp add: exists_def resolve_def Button_not_dotdot)
  have s: "format_str ?B [] = Inr []" by simp
  have w: "write_files [] (Dir [?B \<mapsto> Dir Map.empty]) ?root ?B (get_templates False) =
    (Dir [?B \<mapsto>
        Dir [ascii ''index.js'' \<mapsto> File index,
             ascii ''Actions.js'' \<mapsto> File actions,
             ascii ''View.js'' \<mapsto> File view,
             ascii ''styles.module.css'' \<mapsto> File []]], None)"
    unfolding get_templates_def
    by (simp add: j k Button_not_dotdot resolve_def open_w_def render_template_def assms s
        del: format_str.simps)
  from e w show ?thesis
    by (simp add: make_component_def Let_def BUTTON_UP_join)
qed

text \<open>
  Claim C9, at this input. The root \<^verbatim>\<open>Button/../Button\<close> does not exist in the empty
  directory, yet \<^verbatim>\<open>make_component\<close> does not go on to write the files into it: it
  ends with \<^verbatim>\<open>FileExistsError\<close> and leaves the empty directory \<^verbatim>\<open>Button\<close>, and so does
  the program.
\<close>

theorem make_component_root_made_by_parents:
  "join BUTTON_UP (ascii ''Button'') =
      \<lparr>absolute = False, parts = [ascii ''Button'', ascii ''..'', ascii ''Button'']\<rparr>
   \<and> \<not> exists [] (Dir Map.empty) (join BUTTON_UP (ascii ''Button''))
   \<and> make_component [] (Dir Map.empty) (ascii ''Button'') BUTTON_UP (get_templates False) =
       (Dir [ascii ''Button'' \<mapsto> Dir Map.empty], Some (OS FileExistsError))
   \<and> fst (main ascii_db
          \<lparr>dir = BUTTON_UP, component_name = ascii ''Button'', skip_confirm = True, simple = False\<rparr>
          (empty_world [])) = Uncaught (OS FileExistsError)
   \<and> fs (snd (main ascii_db
          \<lparr>dir = BUTTON_UP, component_name = ascii ''Button'', skip_confirm = True, simple = False\<rparr>
          (empty_world []))) = Dir [ascii ''Button'' \<mapsto> Dir Map.empty]"
proof -
  have l: "\<exists>lines. print_tree (map fst (get_templates False)) = Inr lines"
    by (rule print_tree_templates)
  have m: "fst (main ascii_db
          \<lparr>dir = BUTTON_UP, component_name = ascii ''Button'', skip_confirm = True, simple = False\<rparr>
          (empty_world [])) = Uncaught (OS FileExistsError)
   \<and> fs (snd (main ascii_db
          \<lparr>dir = BUTTON_UP, component_name = ascii ''Button'', skip_confirm = True, simple = False\<rparr>
          (empty_world []))) = Dir [ascii ''Button'' \<mapsto> Dir Map.empty]"
    using l
    by (auto simp: main_def Button_valid Let_def write_and_finish_def print_def
        empty_world_def BUTTON_UP_first)
  have j: "join BUTTON_UP (ascii ''Button'') =
      \<lparr>absolute = False, parts = [ascii ''Button'', ascii ''..'', ascii ''Button'']\<rparr>"
    by (simp add: BUTTON_UP_join dotdot)
  from j BUTTON_UP_missing BUTTON_UP_first m show ?thesis
    by blast
qed

text \<open>
  Claim C7, at the same input. The first run fails and leaves the empty directory
  \<^verbatim>\<open>Button\<close>; the second run, from that tree, succeeds and writes the four files. Two
  runs do not leave the tree that one run leaves, and the two runs do not both
  succeed.
\<close>

theorem make_component_second_run_differs:
  "snd (make_component [] (Dir Map.empty) (ascii ''Button'') BUTTON_UP (get_templates False))
      = Some (OS FileExistsError)
   \<and> snd (make_component []
          (fst (make_component [] (Dir Map.empty) (ascii ''Button'') BUTTON_UP (get_templates False)))
          (ascii ''Button'') BUTTON_UP (get_templates False)) = None
   \<and> lookup (fst (make_component [] (Dir Map.empty) (ascii ''Button'') BUTTON_UP
          (get_templates False))) [ascii ''Button'', ascii ''styles.module.css'']
      = Inl FileNotFoundError
   \<and> lookup (fst (make_component []
          (fst (make_component [] (Dir Map.empty) (ascii ''Button'') BUTTON_UP (get_templates False)))
          (ascii ''Button'') BUTTON_UP (get_templates False)))
        [ascii ''Button'', ascii ''styles.module.css'']
      = Inr (File [])
   \<and> fst (make_component []
          (fst (make_component [] (Dir Map.empty) (ascii ''Button'') BUTTON_UP (get_templates False)))
          (ascii ''Button'') BUTTON_UP (get_templates False))
      \<noteq> fst (make_component [] (Dir Map.empty) (ascii ''Button'') BUTTON_UP (get_templates False))"
proof -
  obtain index actions view where
    "format_str (ascii ''Button'') INDEX = Inr index"
    and "format_str (ascii ''Button'') ACTIONS = Inr actions"
    and "format_str (ascii ''Button'') VIEW = Inr view"
    using format_INDEX format_ACTIONS format_VIEW by blast
  then have s: "make_component [] (Dir [ascii ''Button'' \<mapsto> Dir Map.empty]) (ascii ''Button'')
      BUTTON_UP (get_templates False) =
    (Dir [ascii ''Button'' \<mapsto>
        Dir [ascii ''index.js'' \<mapsto> File index,
             ascii ''Actions.js'' \<mapsto> File actions,
             ascii ''View.js'' \<mapsto> File view,
             ascii ''styles.module.css'' \<mapsto> File []]], None)"
    by (rule BUTTON_UP_second)
  have d: "Dir [ascii ''Button'' \<mapsto>
        Dir [ascii ''index.js'' \<mapsto> File index,
             ascii ''Actions.js'' \<mapsto> File actions,
             ascii ''View.js'' \<mapsto> File view,
             ascii ''styles.module.css'' \<mapsto> File []]]
      \<noteq> Dir [ascii ''Button'' \<mapsto> Dir Map.empty]"
  proof
    assume "Dir [ascii ''Button'' \<mapsto>
        Dir [ascii ''index.js'' \<mapsto> File index,
             ascii ''Actions.js'' \<mapsto> File actions,
             ascii ''View.js'' \<mapsto> File view,
             ascii ''styles.module.css'' \<mapsto> File []]]
      = Dir [ascii ''Button'' \<mapsto> Dir Map.empty]"
    then have "lookup (Dir [ascii ''Button'' \<mapsto>
        Dir [ascii ''index.js'' \<mapsto> File index,
             ascii ''Actions.js'' \<mapsto> File actions,
             ascii ''View.js'' \<mapsto> File view,
             ascii ''styles.module.css'' \<mapsto> File []]])
          [ascii ''Button'', ascii ''styles.module.css'']
      = lookup (Dir [ascii ''Button'' \<mapsto> Dir Map.empty])
          [ascii ''Button'', ascii ''styles.module.css'']"
      by (rule arg_cong)
    then show False by simp
  qed
  from s d show ?thesis
    by (simp add: BUTTON_UP_first)
qed

end
